theory Spec2Isabelle
  imports Main "HOL-Library.Multiset"
begin

section \<open>Data model (shared/types and the orchestrator's local interfaces)\<close>

text \<open>
  Optional fields of the TypeScript interfaces are \<open>option\<close> values. A JavaScript
  condition on an optional string (\<^verbatim>\<open>if (delta.id)\<close>) holds when the field is
  present and not the empty string.
\<close>

definition truthy :: "string option \<Rightarrow> bool" where
  "truthy v = (case v of None \<Rightarrow> False | Some s \<Rightarrow> s \<noteq> [])"

text \<open>Values of type \<^verbatim>\<open>any\<close> (parsed arguments, structured tool output, schemas).\<close>

datatype json =
    JNull
  | JBool bool
  | JNum int
  | JStr string
  | JArr "json list"
  | JObj "(string \<times> json) list"

text \<open>\<^verbatim>\<open>ToolCall\<close>: \<^verbatim>\<open>{ id, type: 'function', function: { name, arguments } }\<close>.\<close>

record FunctionCall =
  fn_name :: string
  fn_arguments :: string

record ToolCall =
  tc_id :: string
  tc_type :: string
  tc_function :: FunctionCall

datatype Role = User | Assistant | System | Tool

record Message =
  msg_role :: Role
  msg_content :: string
  msg_tool_calls :: "ToolCall list option"
  msg_tool_call_id :: "string option"
  msg_timestamp :: int

record MCPTool =
  tool_name :: string
  tool_description :: string
  tool_inputSchema :: json
  tool_serverId :: string

record ContentItem =
  item_type :: string
  item_text :: "string option"
  item_data :: "json option"

record MCPToolResult =
  res_content :: "ContentItem list"
  res_isError :: "bool option"

text \<open>\<^verbatim>\<open>ToolCallDelta\<close>: a streamed fragment of a tool call, keyed by \<open>index\<close>.\<close>

record FunctionDelta =
  df_name :: "string option"
  df_arguments :: "string option"

record ToolCallDelta =
  d_index :: int
  d_id :: "string option"
  d_type :: "string option"
  d_function :: "FunctionDelta option"

text \<open>\<^verbatim>\<open>Partial<ToolCall>\<close>: the record under construction in \<open>toolCallsBuffer\<close>.\<close>

record PartialToolCall =
  p_id :: "string option"
  p_type :: "string option"
  p_function :: "FunctionCall option"

text \<open>
  A chunk of the model stream. \<open>chunk.tool_call\<close> is either one delta or an array of
  deltas (\<^verbatim>\<open>Array.isArray(chunk.tool_call) ? chunk.tool_call : [chunk.tool_call]\<close>).
\<close>

datatype ToolCallPayload = One ToolCallDelta | Many "ToolCallDelta list"

record Chunk =
  c_type :: string
  c_content :: "string option"
  c_tool_call :: "ToolCallPayload option"

text \<open>
  What \<^verbatim>\<open>for await (const chunk of stream)\<close> sees: the chunks delivered, and the
  error raised after them when the stream fails.
\<close>

record Stream =
  s_chunks :: "Chunk list"
  s_error :: "string option"

text \<open>The events \<open>chatWithTools\<close> yields, one constructor per \<open>type\<close> tag.\<close>

datatype Event =
    Content string
  | Tool_execution_start string string
  | Tool_execution_result string string bool
  | Done
  | Error string

section \<open>The delta accumulator (accumulateStreamingResponse, lines 186-239)\<close>

text \<open>
  \<open>toolCallsBuffer\<close> is a JavaScript \<open>Map\<close>: it iterates in insertion order, and
  \<open>set\<close> on a key already present keeps the key's position.
\<close>

type_synonym ToolCallsBuffer = "(int \<times> PartialToolCall) list"

fun map_get :: "(int \<times> 'v) list \<Rightarrow> int \<Rightarrow> 'v option" where
  "map_get [] k = None"
| "map_get ((k', v) # m) k = (if k' = k then Some v else map_get m k)"

fun map_set :: "(int \<times> 'v) list \<Rightarrow> int \<Rightarrow> 'v \<Rightarrow> (int \<times> 'v) list" where
  "map_set [] k v = [(k, v)]"
| "map_set ((k', v') # m) k v = (if k' = k then (k, v) # m else (k', v') # map_set m k v)"

definition map_values :: "(int \<times> 'v) list \<Rightarrow> 'v list" where
  "map_values m = map snd m"

definition empty_partial :: PartialToolCall where
  "empty_partial = \<lparr>p_id = None, p_type = None, p_function = None\<rparr>"

definition delta_name :: "ToolCallDelta \<Rightarrow> string option" where
  "delta_name delta = (case d_function delta of None \<Rightarrow> None | Some f \<Rightarrow> df_name f)"

definition delta_arguments :: "ToolCallDelta \<Rightarrow> string option" where
  "delta_arguments delta = (case d_function delta of None \<Rightarrow> None | Some f \<Rightarrow> df_arguments f)"

definition ensure_function :: "PartialToolCall \<Rightarrow> FunctionCall" where
  "ensure_function existing =
     (case p_function existing of
        None \<Rightarrow> \<lparr>fn_name = [], fn_arguments = []\<rparr>
      | Some f \<Rightarrow> f)"

text \<open>The four merge steps of lines 208-221, in the source's order.\<close>

definition merge_id :: "ToolCallDelta \<Rightarrow> PartialToolCall \<Rightarrow> PartialToolCall" where
  "merge_id delta existing =
     (if truthy (d_id delta) then existing\<lparr>p_id := d_id delta\<rparr> else existing)"

definition merge_type :: "ToolCallDelta \<Rightarrow> PartialToolCall \<Rightarrow> PartialToolCall" where
  "merge_type delta existing =
     (if truthy (d_type delta) then existing\<lparr>p_type := d_type delta\<rparr> else existing)"

definition merge_name :: "ToolCallDelta \<Rightarrow> PartialToolCall \<Rightarrow> PartialToolCall" where
  "merge_name delta existing =
     (case delta_name delta of
        None \<Rightarrow> existing
      | Some n \<Rightarrow>
          if n = [] then existing
          else existing\<lparr>p_function := Some ((ensure_function existing)\<lparr>fn_name := n\<rparr>)\<rparr>)"

definition merge_arguments :: "ToolCallDelta \<Rightarrow> PartialToolCall \<Rightarrow> PartialToolCall" where
  "merge_arguments delta existing =
     (case delta_arguments delta of
        None \<Rightarrow> existing
      | Some a \<Rightarrow>
          if a = [] then existing
          else existing\<lparr>p_function :=
                 Some ((ensure_function existing)
                         \<lparr>fn_arguments := fn_arguments (ensure_function existing) @ a\<rparr>)\<rparr>)"

definition merge_fields :: "ToolCallDelta \<Rightarrow> PartialToolCall \<Rightarrow> PartialToolCall" where
  "merge_fields delta existing =
     merge_arguments delta (merge_name delta (merge_type delta (merge_id delta existing)))"

text \<open>The body of \<^verbatim>\<open>for (const delta of deltas)\<close>, lines 205-223.\<close>

definition merge_delta :: "ToolCallsBuffer \<Rightarrow> ToolCallDelta \<Rightarrow> ToolCallsBuffer" where
  "merge_delta toolCallsBuffer delta =
     (let existing = (case map_get toolCallsBuffer (d_index delta) of
                        None \<Rightarrow> empty_partial
                      | Some e \<Rightarrow> e)
      in map_set toolCallsBuffer (d_index delta) (merge_fields delta existing))"

definition merge_deltas :: "ToolCallsBuffer \<Rightarrow> ToolCallDelta list \<Rightarrow> ToolCallsBuffer" where
  "merge_deltas toolCallsBuffer deltas = foldl merge_delta toolCallsBuffer deltas"

text \<open>Lines 230-239: the filter and the map that build the completed calls.\<close>

definition is_complete :: "PartialToolCall \<Rightarrow> bool" where
  "is_complete tc =
     (truthy (p_id tc) \<and>
      (case p_function tc of None \<Rightarrow> False | Some f \<Rightarrow> fn_name f \<noteq> []))"

definition to_ToolCall :: "PartialToolCall \<Rightarrow> ToolCall" where
  "to_ToolCall tc =
     \<lparr>tc_id = (case p_id tc of None \<Rightarrow> [] | Some i \<Rightarrow> i),
      tc_type = ''function'',
      tc_function =
        \<lparr>fn_name = fn_name (ensure_function tc),
         fn_arguments = (if fn_arguments (ensure_function tc) = [] then ''{}''
                         else fn_arguments (ensure_function tc))\<rparr>\<rparr>"

definition finalize :: "ToolCallsBuffer \<Rightarrow> ToolCall list" where
  "finalize toolCallsBuffer = map to_ToolCall (filter is_complete (map_values toolCallsBuffer))"

subsection \<open>What the merge rule says, read off a fragment sequence\<close>

text \<open>
  These functions do not follow the code: they describe a fragment sequence directly,
  so that the accumulator can be compared with them.
\<close>

definition frags_for :: "int \<Rightarrow> ToolCallDelta list \<Rightarrow> ToolCallDelta list" where
  "frags_for i ds = filter (\<lambda>d. d_index d = i) ds"

definition first_truthy :: "string option list \<Rightarrow> string option" where
  "first_truthy vs = (case filter truthy vs of [] \<Rightarrow> None | v # _ \<Rightarrow> v)"

definition last_truthy :: "string option list \<Rightarrow> string option" where
  "last_truthy vs = (case rev (filter truthy vs) of [] \<Rightarrow> None | v # _ \<Rightarrow> v)"

definition text_of :: "string option \<Rightarrow> string" where
  "text_of v = (case v of None \<Rightarrow> [] | Some s \<Rightarrow> s)"

definition argument_text :: "int \<Rightarrow> ToolCallDelta list \<Rightarrow> string" where
  "argument_text i ds = concat (map (\<lambda>d. text_of (delta_arguments d)) (frags_for i ds))"

definition has_id :: "int \<Rightarrow> ToolCallDelta list \<Rightarrow> bool" where
  "has_id i ds = list_ex (\<lambda>d. truthy (d_id d)) (frags_for i ds)"

definition has_name :: "int \<Rightarrow> ToolCallDelta list \<Rightarrow> bool" where
  "has_name i ds = list_ex (\<lambda>d. truthy (delta_name d)) (frags_for i ds)"

definition has_arguments :: "int \<Rightarrow> ToolCallDelta list \<Rightarrow> bool" where
  "has_arguments i ds = list_ex (\<lambda>d. truthy (delta_arguments d)) (frags_for i ds)"

text \<open>The record the merge rule gives index \<open>i\<close> after the fragments \<open>ds\<close>.\<close>

definition merged :: "int \<Rightarrow> ToolCallDelta list \<Rightarrow> PartialToolCall" where
  "merged i ds =
     \<lparr>p_id = last_truthy (map d_id (frags_for i ds)),
      p_type = last_truthy (map d_type (frags_for i ds)),
      p_function =
        (if has_name i ds \<or> has_arguments i ds
         then Some \<lparr>fn_name = text_of (last_truthy (map delta_name (frags_for i ds))),
                    fn_arguments = argument_text i ds\<rparr>
         else None)\<rparr>"

text \<open>The indices of a fragment sequence, each once, in order of first appearance.\<close>

definition first_seen :: "int list \<Rightarrow> int list" where
  "first_seen ks = foldl (\<lambda>seen k. if k \<in> set seen then seen else seen @ [k]) [] ks"

definition complete_indices :: "ToolCallDelta list \<Rightarrow> int list" where
  "complete_indices ds =
     filter (\<lambda>i. has_id i ds \<and> has_name i ds) (first_seen (map d_index ds))"

text \<open>The call the merge rule gives a complete index.\<close>

definition call_of :: "int \<Rightarrow> ToolCallDelta list \<Rightarrow> ToolCall" where
  "call_of i ds =
     \<lparr>tc_id = text_of (last_truthy (map d_id (frags_for i ds))),
      tc_type = ''function'',
      tc_function =
        \<lparr>fn_name = text_of (last_truthy (map delta_name (frags_for i ds))),
         fn_arguments = (if has_arguments i ds then argument_text i ds else ''{}'')\<rparr>\<rparr>"

section \<open>External collaborators and the store\<close>

text \<open>
  The language-model client, the tool-provider registry, the clock and the JSON
  built-ins are not part of the orchestrator. They are parameters: each call takes the
  state \<open>'w\<close> of the outside world and returns its answer with the world that follows.
  \<open>Pending\<close> is a provider promise that has not settled when the timer of
  \<open>executeToolCallWithTimeout\<close> fires.
\<close>

datatype Settled = Resolved MCPToolResult | Rejected string | Pending

record 'w Env =
  chatStream :: "'w \<Rightarrow> Message list \<Rightarrow> MCPTool list \<Rightarrow> Stream \<times> 'w"
  executeTool :: "'w \<Rightarrow> string \<Rightarrow> string \<Rightarrow> json \<Rightarrow> Settled \<times> 'w"
  JSON_parse :: "string \<Rightarrow> string + json"
  JSON_stringify :: "json \<Rightarrow> string"
  now :: "'w \<Rightarrow> int"

text \<open>
  Message arrays live in a store, by address: the caller's \<open>messages\<close> and the
  orchestrator's \<open>conversationHistory\<close> are two arrays, and \<open>push\<close> updates one
  of them in place.
\<close>

type_synonym addr = nat

record 'w State =
  arrays :: "addr \<Rightarrow> Message list"
  free :: addr
  world :: 'w

definition spread :: "addr \<Rightarrow> 'w State \<Rightarrow> addr \<times> 'w State" where
  "spread a s = (free s, s\<lparr>arrays := (arrays s)(free s := arrays s a), free := Suc (free s)\<rparr>)"

definition push :: "addr \<Rightarrow> Message \<Rightarrow> 'w State \<Rightarrow> 'w State" where
  "push a m s = s\<lparr>arrays := (arrays s)(a := arrays s a @ [m])\<rparr>"

text \<open>
  What a run does, in program order: the events it yields, the model streams it opens
  (with the transcript passed and the stream received), the tool calls it hands to
  \<open>executeToolCallWithTimeout\<close>, and the messages it pushes on \<open>conversationHistory\<close>.
\<close>

datatype Action =
    Yield Event
  | ChatStream "Message list" Stream
  | Dispatch ToolCall
  | Push Message

section \<open>accumulateStreamingResponse\<close>

record AccumulatedResponse =
  assistantMessage :: Message
  toolCalls :: "ToolCall list"
  finishReason :: string

text \<open>The three locals \<open>contentBuffer\<close>, \<open>toolCallsBuffer\<close>, \<open>finishReason\<close>.\<close>

record Locals =
  acc_contentBuffer :: string
  acc_toolCallsBuffer :: ToolCallsBuffer
  acc_finishReason :: string

definition initial_locals :: Locals where
  "initial_locals =
     \<lparr>acc_contentBuffer = [], acc_toolCallsBuffer = [], acc_finishReason = ''stop''\<rparr>"

definition deltas_of :: "ToolCallPayload \<Rightarrow> ToolCallDelta list" where
  "deltas_of p = (case p of One d \<Rightarrow> [d] | Many ds \<Rightarrow> ds)"

text \<open>Lines 193-196.\<close>

definition stream_content :: "Locals \<Rightarrow> Chunk \<Rightarrow> Event list \<times> Locals" where
  "stream_content a chunk =
     (if c_type chunk = ''content'' \<and> truthy (c_content chunk)
      then ([Content (text_of (c_content chunk))],
            a\<lparr>acc_contentBuffer := acc_contentBuffer a @ text_of (c_content chunk)\<rparr>)
      else ([], a))"

text \<open>Lines 199-226.\<close>

definition is_tool_call_event :: "Chunk \<Rightarrow> bool" where
  "is_tool_call_event chunk = (c_type chunk = ''tool_call'' \<and> c_tool_call chunk \<noteq> None)"

definition accumulate_tool_call :: "Locals \<Rightarrow> Chunk \<Rightarrow> Locals" where
  "accumulate_tool_call a chunk =
     (case c_tool_call chunk of
        None \<Rightarrow> a
      | Some p \<Rightarrow>
          if c_type chunk = ''tool_call''
          then a\<lparr>acc_toolCallsBuffer := merge_deltas (acc_toolCallsBuffer a) (deltas_of p),
                 acc_finishReason := ''tool_calls''\<rparr>
          else a)"

text \<open>The \<^verbatim>\<open>for await\<close> loop over the chunks the stream delivers.\<close>

fun consume :: "Locals \<Rightarrow> Chunk list \<Rightarrow> Event list \<times> Locals" where
  "consume a [] = ([], a)"
| "consume a (chunk # rest) =
     (let (ev, a1) = stream_content a chunk;
          a2 = accumulate_tool_call a1 chunk;
          (evs, a3) = consume a2 rest
      in (ev @ evs, a3))"

text \<open>Lines 230-252: the value returned when the stream ends without an error.\<close>

definition response :: "Locals \<Rightarrow> int \<Rightarrow> AccumulatedResponse" where
  "response a timestamp =
     (let calls = finalize (acc_toolCallsBuffer a)
      in \<lparr>assistantMessage =
             \<lparr>msg_role = Assistant,
              msg_content = acc_contentBuffer a,
              msg_tool_calls = (if length calls > 0 then Some calls else None),
              msg_tool_call_id = None,
              msg_timestamp = timestamp\<rparr>,
           toolCalls = calls,
           finishReason = acc_finishReason a\<rparr>)"

text \<open>
  \<open>messages\<close> is the address of the array passed in. The result is the actions of the
  turn, the returned value (\<open>Inl\<close> the message of the error the stream raised), and the
  state after the turn.
\<close>

definition accumulateStreamingResponse ::
  "'w Env \<Rightarrow> addr \<Rightarrow> MCPTool list \<Rightarrow> 'w State
     \<Rightarrow> Action list \<times> (string + AccumulatedResponse) \<times> 'w State" where
  "accumulateStreamingResponse env messages tools s =
     (let (stream, w) = chatStream env (world s) (arrays s messages) tools;
          (evs, a) = consume initial_locals (s_chunks stream);
          acts = ChatStream (arrays s messages) stream # map Yield evs
      in (case s_error stream of
            Some message \<Rightarrow> (acts, Inl message, s\<lparr>world := w\<rparr>)
          | None \<Rightarrow> (acts, Inr (response a (now env w)), s\<lparr>world := w\<rparr>)))"

text \<open>The locals at the end of a stream, for statements about one turn.\<close>

definition collected :: "Stream \<Rightarrow> Locals" where
  "collected stream = snd (consume initial_locals (s_chunks stream))"

text \<open>The fragments a stream feeds to the accumulator, and the text it streams.\<close>

definition chunk_fragments :: "Chunk list \<Rightarrow> ToolCallDelta list" where
  "chunk_fragments chunks =
     concat (map (\<lambda>chunk. case c_tool_call chunk of None \<Rightarrow> [] | Some p \<Rightarrow> deltas_of p)
                 (filter is_tool_call_event chunks))"

definition fragments :: "Stream \<Rightarrow> ToolCallDelta list" where
  "fragments stream = chunk_fragments (s_chunks stream)"

definition content_events :: "Stream \<Rightarrow> Event list" where
  "content_events stream = fst (consume initial_locals (s_chunks stream))"

section \<open>Tool dispatch\<close>

definition MAX_ITERATIONS :: nat where
  "MAX_ITERATIONS = 10"

definition TOOL_EXECUTION_TIMEOUT :: nat where
  "TOOL_EXECUTION_TIMEOUT = 30000"

text \<open>Decimal rendering of a number inside a template string.\<close>

definition digit :: "nat \<Rightarrow> char" where
  "digit n = ''0123456789'' ! n"

fun show_nat :: "nat \<Rightarrow> string" where
  "show_nat n =
     (if n < 10 then [digit n]
      else show_nat (n div 10) @ [digit (n mod 10)])"

definition quoted :: "string \<Rightarrow> string" where
  "quoted x = [CHR 0x27] @ x @ [CHR 0x27]"

text \<open>
  Lines 286-312. A \<open>throw\<close> inside the async function is a rejected promise. The world
  changes only when the provider is reached.
\<close>

definition executeToolCall ::
  "'w Env \<Rightarrow> ToolCall \<Rightarrow> MCPTool list \<Rightarrow> 'w \<Rightarrow> Settled \<times> 'w" where
  "executeToolCall env toolCall availableTools w =
     (let toolName = fn_name (tc_function toolCall)
      in case find (\<lambda>t. tool_name t = toolName) availableTools of
           None \<Rightarrow> (Rejected (''Tool '' @ quoted toolName @ '' not found''), w)
         | Some tool \<Rightarrow>
             (case JSON_parse env (fn_arguments (tc_function toolCall)) of
                Inl message \<Rightarrow> (Rejected (''Invalid tool arguments: '' @ message), w)
              | Inr args \<Rightarrow> executeTool env w (tool_serverId tool) toolName args))"

text \<open>Lines 262-277: the race against the timer. \<open>Inl\<close> is the message of the error thrown.\<close>

definition executeToolCallWithTimeout ::
  "'w Env \<Rightarrow> ToolCall \<Rightarrow> MCPTool list \<Rightarrow> 'w \<Rightarrow> (string + MCPToolResult) \<times> 'w" where
  "executeToolCallWithTimeout env toolCall availableTools w =
     (case executeToolCall env toolCall availableTools w of
        (Resolved result, w') \<Rightarrow> (Inr result, w')
      | (Rejected message, w') \<Rightarrow> (Inl message, w')
      | (Pending, w') \<Rightarrow>
          (Inl (''Tool execution timeout after '' @ show_nat TOOL_EXECUTION_TIMEOUT @ ''ms''), w'))"

text \<open>Lines 320-333.\<close>

fun json_truthy :: "json \<Rightarrow> bool" where
  "json_truthy JNull = False"
| "json_truthy (JBool b) = b"
| "json_truthy (JNum n) = (n \<noteq> 0)"
| "json_truthy (JStr s) = (s \<noteq> [])"
| "json_truthy (JArr xs) = True"
| "json_truthy (JObj kvs) = True"

definition format_item :: "'w Env \<Rightarrow> ContentItem \<Rightarrow> string" where
  "format_item env item =
     (if item_type item = ''text'' \<and> truthy (item_text item) then text_of (item_text item)
      else (case item_data item of
              None \<Rightarrow> []
            | Some d \<Rightarrow> if json_truthy d then JSON_stringify env d else []))"

fun join :: "string \<Rightarrow> string list \<Rightarrow> string" where
  "join sep [] = []"
| "join sep [x] = x"
| "join sep (x # y # ys) = x @ sep @ join sep (y # ys)"

definition formatToolResult :: "'w Env \<Rightarrow> MCPToolResult \<Rightarrow> string" where
  "formatToolResult env result =
     join [CHR 0x0A, CHR 0x0A]
       (filter (\<lambda>s. length s > 0) (map (format_item env) (res_content result)))"

section \<open>chatWithTools\<close>

text \<open>The body of \<^verbatim>\<open>for (const toolCall of toolCalls)\<close>, lines 92-138.\<close>

definition run_tool ::
  "'w Env \<Rightarrow> MCPTool list \<Rightarrow> addr \<Rightarrow> ToolCall \<Rightarrow> 'w State \<Rightarrow> Action list \<times> 'w State" where
  "run_tool env tools conversationHistory toolCall s =
     (let toolName = fn_name (tc_function toolCall);
          start = Yield (Tool_execution_start toolName (tc_id toolCall));
          (outcome, w) = executeToolCallWithTimeout env toolCall tools (world s)
      in case outcome of
           Inr result \<Rightarrow>
             (let toolResultMessage =
                    \<lparr>msg_role = Tool,
                     msg_content = formatToolResult env result,
                     msg_tool_calls = None,
                     msg_tool_call_id = Some (tc_id toolCall),
                     msg_timestamp = now env w\<rparr>
              in ([start, Dispatch toolCall, Push toolResultMessage,
                   Yield (Tool_execution_result toolName (tc_id toolCall)
                            (res_isError result = Some True))],
                  push conversationHistory toolResultMessage (s\<lparr>world := w\<rparr>)))
         | Inl message \<Rightarrow>
             (let errorMessage =
                    \<lparr>msg_role = Tool,
                     msg_content = ''Error executing '' @ toolName @ '': '' @ message,
                     msg_tool_calls = None,
                     msg_tool_call_id = Some (tc_id toolCall),
                     msg_timestamp = now env w\<rparr>
              in ([start, Dispatch toolCall, Push errorMessage,
                   Yield (Tool_execution_result toolName (tc_id toolCall) True)],
                  push conversationHistory errorMessage (s\<lparr>world := w\<rparr>))))"

fun run_tools ::
  "'w Env \<Rightarrow> MCPTool list \<Rightarrow> addr \<Rightarrow> ToolCall list \<Rightarrow> 'w State \<Rightarrow> Action list \<times> 'w State" where
  "run_tools env tools conversationHistory [] s = ([], s)"
| "run_tools env tools conversationHistory (toolCall # rest) s =
     (let (acts, s1) = run_tool env tools conversationHistory toolCall s;
          (acts', s2) = run_tools env tools conversationHistory rest s1
      in (acts @ acts', s2))"

text \<open>
  One pass through the body of the \<^verbatim>\<open>while\<close> loop, lines 78-156. \<open>Next c\<close> ends the
  pass with \<open>continueLoop = c\<close>; \<open>Break\<close> is the \<^verbatim>\<open>break\<close> of the catch block.
\<close>

datatype Flow = Next bool | Break

definition iteration_body ::
  "'w Env \<Rightarrow> MCPTool list \<Rightarrow> addr \<Rightarrow> 'w State \<Rightarrow> Action list \<times> Flow \<times> 'w State" where
  "iteration_body env tools conversationHistory s =
     (case accumulateStreamingResponse env conversationHistory tools s of
        (acts, Inl message, s1) \<Rightarrow> (acts @ [Yield (Error message)], Break, s1)
      | (acts, Inr r, s1) \<Rightarrow>
          if finishReason r = ''tool_calls'' \<and> length (toolCalls r) > 0
          then (let s2 = push conversationHistory (assistantMessage r) s1;
                    (acts', s3) = run_tools env tools conversationHistory (toolCalls r) s2
                in (acts @ [Push (assistantMessage r)] @ acts', Next True, s3))
          else (acts @ [Push (assistantMessage r)], Next False,
                push conversationHistory (assistantMessage r) s1))"

text \<open>The \<^verbatim>\<open>while\<close> loop, lines 73-157. It returns the final value of \<open>iteration\<close>.\<close>

function loop ::
  "'w Env \<Rightarrow> MCPTool list \<Rightarrow> addr \<Rightarrow> bool \<Rightarrow> nat \<Rightarrow> 'w State \<Rightarrow> Action list \<times> nat \<times> 'w State" where
  "loop env tools conversationHistory continueLoop iteration s =
     (if continueLoop \<and> iteration < MAX_ITERATIONS
      then (case iteration_body env tools conversationHistory s of
              (acts, Break, s1) \<Rightarrow> (acts, iteration + 1, s1)
            | (acts, Next c, s1) \<Rightarrow>
                (let (acts', n, s2) = loop env tools conversationHistory c (iteration + 1) s1
                 in (acts @ acts', n, s2)))
      else ([], iteration, s))"
  by pat_completeness auto
termination
  by (relation "measure (\<lambda>(env, tools, h, c, iteration, s). MAX_ITERATIONS - iteration)") auto

definition max_iterations_message :: string where
  "max_iterations_message = ''Maximum tool execution iterations reached. Stopping for safety.''"

record 'w Run =
  trace :: "Action list"
  history :: addr
  final :: "'w State"

definition chatWithTools ::
  "'w Env \<Rightarrow> addr \<Rightarrow> MCPTool list \<Rightarrow> 'w State \<Rightarrow> 'w Run" where
  "chatWithTools env messages tools s =
     (let (conversationHistory, s0) = spread messages s;
          (acts, iteration, s1) = loop env tools conversationHistory True 0 s0;
          limit = (if iteration \<ge> MAX_ITERATIONS then [Yield (Error max_iterations_message)]
                   else [])
      in \<lparr>trace = acts @ limit @ [Yield Done], history = conversationHistory, final = s1\<rparr>)"

subsection \<open>Reading a trace\<close>

fun events :: "Action list \<Rightarrow> Event list" where
  "events [] = []"
| "events (Yield e # acts) = e # events acts"
| "events (a # acts) = events acts"

fun streams :: "Action list \<Rightarrow> Stream list" where
  "streams [] = []"
| "streams (ChatStream transcript stream # acts) = stream # streams acts"
| "streams (a # acts) = streams acts"

fun dispatches :: "Action list \<Rightarrow> ToolCall list" where
  "dispatches [] = []"
| "dispatches (Dispatch toolCall # acts) = toolCall # dispatches acts"
| "dispatches (a # acts) = dispatches acts"

fun pushes :: "Action list \<Rightarrow> Message list" where
  "pushes [] = []"
| "pushes (Push m # acts) = m # pushes acts"
| "pushes (a # acts) = pushes acts"

definition is_error :: "Event \<Rightarrow> bool" where
  "is_error e = (case e of Error message \<Rightarrow> True | _ \<Rightarrow> False)"

definition is_tool_event :: "Event \<Rightarrow> bool" where
  "is_tool_event e =
     (case e of Tool_execution_start n i \<Rightarrow> True
              | Tool_execution_result n i b \<Rightarrow> True
              | _ \<Rightarrow> False)"

text \<open>The two ways a turn can end when its stream does not fail (line 86).\<close>

definition wants_tools :: "Stream \<Rightarrow> bool" where
  "wants_tools stream =
     (acc_finishReason (collected stream) = ''tool_calls'' \<and>
      length (finalize (acc_toolCallsBuffer (collected stream))) > 0)"

text \<open>The actions of a turn up to the end of its stream.\<close>

definition turn_prefix :: "Message list \<Rightarrow> Stream \<Rightarrow> Action list" where
  "turn_prefix transcript stream =
     ChatStream transcript stream # map Yield (content_events stream)"

text \<open>The four actions of one dispatch, and those of a list of dispatches.\<close>

definition block :: "ToolCall \<Rightarrow> Message \<Rightarrow> bool \<Rightarrow> Action list" where
  "block toolCall m isError =
     [Yield (Tool_execution_start (fn_name (tc_function toolCall)) (tc_id toolCall)),
      Dispatch toolCall,
      Push m,
      Yield (Tool_execution_result (fn_name (tc_function toolCall)) (tc_id toolCall) isError)]"

definition blocks :: "ToolCall list \<Rightarrow> Message list \<Rightarrow> bool list \<Rightarrow> Action list" where
  "blocks calls ms flags = concat (map (\<lambda>(c, m, b). block c m b) (zip calls (zip ms flags)))"

text \<open>
  \<open>grows h acts s s'\<close>: from \<open>s\<close> to \<open>s'\<close> the store changed at address \<open>h\<close> only, by
  appending the messages pushed in \<open>acts\<close>, and nothing was allocated.
\<close>

definition grows :: "addr \<Rightarrow> Action list \<Rightarrow> 'w State \<Rightarrow> 'w State \<Rightarrow> bool" where
  "grows h acts s s' =
     (arrays s' = (arrays s)(h := arrays s h @ pushes acts) \<and> free s' = free s)"








section \<open>Example inputs\<close>

subsection \<open>Fragment sequences\<close>

definition frag_a :: ToolCallDelta where
  "frag_a = \<lparr>d_index = 0, d_id = Some ''call_a'', d_type = Some ''function'',
             d_function = Some \<lparr>df_name = Some ''search'', df_arguments = Some ''[1,''\<rparr>\<rparr>"

definition frag_x :: ToolCallDelta where
  "frag_x = \<lparr>d_index = 1, d_id = Some ''call_x'', d_type = None, d_function = None\<rparr>"

definition frag_b :: ToolCallDelta where
  "frag_b = \<lparr>d_index = 0, d_id = Some ''call_b'', d_type = None,
             d_function = Some \<lparr>df_name = Some ''lookup'', df_arguments = Some ''2]''\<rparr>\<rparr>"

definition two_ids :: "ToolCallDelta list" where
  "two_ids = [frag_a, frag_x, frag_b]"

definition frag_0 :: ToolCallDelta where
  "frag_0 = \<lparr>d_index = 0, d_id = Some ''call_0'', d_type = Some ''function'',
             d_function = Some \<lparr>df_name = Some ''alpha'', df_arguments = None\<rparr>\<rparr>"

definition frag_1 :: ToolCallDelta where
  "frag_1 = \<lparr>d_index = 1, d_id = Some ''call_1'', d_type = Some ''function'',
             d_function = Some \<lparr>df_name = Some ''beta'', df_arguments = Some ''[7]''\<rparr>\<rparr>"

definition frag_2 :: ToolCallDelta where
  "frag_2 = \<lparr>d_index = 2, d_id = None, d_type = Some ''function'',
             d_function = Some \<lparr>df_name = Some ''gamma'', df_arguments = None\<rparr>\<rparr>"

definition stream_order :: "ToolCallDelta list" where
  "stream_order = [frag_0, frag_2, frag_1]"

definition other_order :: "ToolCallDelta list" where
  "other_order = [frag_1, frag_0, frag_2]"

definition call_0 :: ToolCall where
  "call_0 = \<lparr>tc_id = ''call_0'', tc_type = ''function'',
             tc_function = \<lparr>fn_name = ''alpha'', fn_arguments = ''{}''\<rparr>\<rparr>"

definition call_1 :: ToolCall where
  "call_1 = \<lparr>tc_id = ''call_1'', tc_type = ''function'',
             tc_function = \<lparr>fn_name = ''beta'', fn_arguments = ''[7]''\<rparr>\<rparr>"

subsection \<open>Collaborators, catalog and streams for example runs\<close>

definition parse_example :: "string \<Rightarrow> string + json" where
  "parse_example text = (if text = ''{}'' then Inr (JObj []) else Inl ''Unexpected token'')"

definition ok_result :: MCPToolResult where
  "ok_result =
     \<lparr>res_content = [\<lparr>item_type = ''text'', item_text = Some ''8000 steps'', item_data = None\<rparr>],
      res_isError = None\<rparr>"

definition error_result :: MCPToolResult where
  "error_result =
     \<lparr>res_content = [\<lparr>item_type = ''text'', item_text = Some ''boom'', item_data = None\<rparr>],
      res_isError = Some True\<rparr>"

definition provider_example :: "string \<Rightarrow> Settled" where
  "provider_example toolName =
     (if toolName = ''get_steps'' then Resolved ok_result
      else if toolName = ''get_sleep'' then Resolved error_result
      else if toolName = ''slow_tool'' then Pending
      else Rejected ''connection closed'')"

text \<open>
  The world of the example runs is the number of model streams opened so far; the model's
  reply to each call is given by \<open>reply\<close>.
\<close>

definition scripted :: "(nat \<Rightarrow> Stream) \<Rightarrow> nat Env" where
  "scripted reply =
     \<lparr>chatStream = (\<lambda>w transcript tools. (reply w, Suc w)),
      executeTool = (\<lambda>w serverId toolName args. (provider_example toolName, w)),
      JSON_parse = parse_example,
      JSON_stringify = (\<lambda>d. ''null''),
      now = (\<lambda>w. int w)\<rparr>"

definition always :: "Stream \<Rightarrow> nat Env" where
  "always stream = scripted (\<lambda>w. stream)"

definition tool :: "string \<Rightarrow> MCPTool" where
  "tool n = \<lparr>tool_name = n, tool_description = [], tool_inputSchema = JObj [],
             tool_serverId = ''garmin''\<rparr>"

definition catalog :: "MCPTool list" where
  "catalog = [tool ''get_steps'', tool ''get_sleep'', tool ''slow_tool'', tool ''down_tool'']"

definition user_message :: Message where
  "user_message = \<lparr>msg_role = User, msg_content = ''How many steps?'', msg_tool_calls = None,
                    msg_tool_call_id = None, msg_timestamp = 0\<rparr>"

text \<open>The caller's array is at address 0.\<close>

definition start :: "nat State" where
  "start = \<lparr>arrays = (\<lambda>a. if a = 0 then [user_message] else []), free = 1, world = 0\<rparr>"

definition content_chunk :: "string \<Rightarrow> Chunk" where
  "content_chunk text = \<lparr>c_type = ''content'', c_content = Some text, c_tool_call = None\<rparr>"

definition request :: "int \<Rightarrow> string option \<Rightarrow> string \<Rightarrow> string \<Rightarrow> ToolCallDelta" where
  "request i callId n a =
     \<lparr>d_index = i, d_id = callId, d_type = Some ''function'',
      d_function = Some \<lparr>df_name = Some n, df_arguments = Some a\<rparr>\<rparr>"

definition tool_chunk :: "ToolCallDelta list \<Rightarrow> Chunk" where
  "tool_chunk ds = \<lparr>c_type = ''tool_call'', c_content = None, c_tool_call = Some (Many ds)\<rparr>"

definition answer_stream :: Stream where
  "answer_stream = \<lparr>s_chunks = [content_chunk ''Hello''], s_error = None\<rparr>"

definition steps_stream :: Stream where
  "steps_stream =
     \<lparr>s_chunks = [tool_chunk [request 0 (Some ''call_1'') ''get_steps'' ''{}'']], s_error = None\<rparr>"

definition failing_tools_stream :: Stream where
  "failing_tools_stream =
     \<lparr>s_chunks = [tool_chunk [request 0 (Some ''call_1'') ''missing_tool'' ''{}'',
                              request 1 (Some ''call_2'') ''get_sleep'' ''{}'']],
      s_error = None\<rparr>"

definition no_id_stream :: Stream where
  "no_id_stream = \<lparr>s_chunks = [tool_chunk [request 0 None ''get_steps'' ''{}'']], s_error = None\<rparr>"

definition invalid_arguments_stream :: Stream where
  "invalid_arguments_stream =
     \<lparr>s_chunks = [tool_chunk [request 0 (Some ''call_1'') ''get_steps'' ''{invalid'']],
      s_error = None\<rparr>"

definition steps_call :: ToolCall where
  "steps_call = \<lparr>tc_id = ''call_1'', tc_type = ''function'',
                 tc_function = \<lparr>fn_name = ''get_steps'', fn_arguments = ''{}''\<rparr>\<rparr>"

text \<open>The model asks for tools on its first \<open>k\<close> calls and then answers.\<close>

definition then_answer :: "nat \<Rightarrow> Stream \<Rightarrow> nat Env" where
  "then_answer k stream = scripted (\<lambda>w. if w < k then stream else answer_stream)"

definition missing_call :: ToolCall where
  "missing_call = \<lparr>tc_id = ''call_1'', tc_type = ''function'',
                   tc_function = \<lparr>fn_name = ''missing_tool'', fn_arguments = ''{}''\<rparr>\<rparr>"

definition sleep_call :: ToolCall where
  "sleep_call = \<lparr>tc_id = ''call_2'', tc_type = ''function'',
                 tc_function = \<lparr>fn_name = ''get_sleep'', fn_arguments = ''{}''\<rparr>\<rparr>"

definition invalid_call :: ToolCall where
  "invalid_call = \<lparr>tc_id = ''call_1'', tc_type = ''function'',
                   tc_function = \<lparr>fn_name = ''get_steps'', fn_arguments = ''{invalid''\<rparr>\<rparr>"

definition slow_call :: ToolCall where
  "slow_call = \<lparr>tc_id = ''call_3'', tc_type = ''function'',
                tc_function = \<lparr>fn_name = ''slow_tool'', fn_arguments = ''{}''\<rparr>\<rparr>"

definition down_call :: ToolCall where
  "down_call = \<lparr>tc_id = ''call_4'', tc_type = ''function'',
                tc_function = \<lparr>fn_name = ''down_tool'', fn_arguments = ''{}''\<rparr>\<rparr>"

section \<open>The delta accumulator: merge rule and finalization\<close>

lemma map_get_map_set: "map_get (map_set m k v) i = (if i = k then Some v else map_get m i)"
  by (induction m) auto

lemma keys_map_set:
  "map fst (map_set m k v) = (if k \<in> set (map fst m) then map fst m else map fst m @ [k])"
  by (induction m) (auto split: if_splits)

lemma map_get_None_iff: "map_get m k = None \<longleftrightarrow> k \<notin> set (map fst m)"
  by (induction m) (auto split: if_splits)

lemma last_truthy_snoc:
  "last_truthy (vs @ [v]) = (if truthy v then v else last_truthy vs)"
  by (simp add: last_truthy_def)

lemma last_truthy_Nil: "last_truthy [] = None"
  by (simp add: last_truthy_def)

lemma frags_for_snoc:
  "frags_for i (ds @ [d]) = (if d_index d = i then frags_for i ds @ [d] else frags_for i ds)"
  by (simp add: frags_for_def)

lemma merged_other: "d_index d \<noteq> i \<Longrightarrow> merged i (ds @ [d]) = merged i ds"
  by (simp add: merged_def frags_for_snoc has_name_def has_arguments_def argument_text_def)

lemma merged_nil: "frags_for i ds = [] \<Longrightarrow> merged i ds = empty_partial"
  by (simp add: merged_def empty_partial_def last_truthy_Nil has_name_def has_arguments_def)

lemma p_id_merge_fields:
  "p_id (merge_fields d e) = (if truthy (d_id d) then d_id d else p_id e)"
  by (simp add: merge_fields_def merge_id_def merge_type_def merge_name_def merge_arguments_def
      split: option.splits)

lemma p_type_merge_fields:
  "p_type (merge_fields d e) = (if truthy (d_type d) then d_type d else p_type e)"
  by (simp add: merge_fields_def merge_id_def merge_type_def merge_name_def merge_arguments_def
      split: option.splits)

lemma ensure_function_simps:
  "ensure_function (e\<lparr>p_id := x\<rparr>) = ensure_function e"
  "ensure_function (e\<lparr>p_type := y\<rparr>) = ensure_function e"
  "ensure_function (e\<lparr>p_function := Some f\<rparr>) = f"
  by (simp_all add: ensure_function_def)

lemma p_function_merge_fields:
  "p_function (merge_fields d e) =
     (if truthy (delta_name d) \<or> truthy (delta_arguments d)
      then Some \<lparr>fn_name = (if truthy (delta_name d) then text_of (delta_name d)
                              else fn_name (ensure_function e)),
                 fn_arguments = fn_arguments (ensure_function e) @ text_of (delta_arguments d)\<rparr>
      else p_function e)"
  by (auto simp add: merge_fields_def merge_id_def merge_type_def merge_name_def merge_arguments_def
      ensure_function_simps truthy_def text_of_def split: option.splits)

lemma merge_fields_more: "PartialToolCall.more (merge_fields d e) = PartialToolCall.more e"
  by (simp add: merge_fields_def merge_id_def merge_type_def merge_name_def merge_arguments_def
      split: option.splits)

lemma last_truthy_None: "\<not> list_ex truthy vs \<Longrightarrow> last_truthy vs = None"
  by (simp add: last_truthy_def list_ex_iff filter_False)

lemma text_of_not_truthy: "\<not> truthy v \<Longrightarrow> text_of v = []"
  by (simp add: truthy_def text_of_def split: option.splits)

lemma argument_text_empty: "\<not> has_arguments i ds \<Longrightarrow> argument_text i ds = []"
  by (simp add: has_arguments_def argument_text_def list_ex_iff text_of_not_truthy)

lemma last_truthy_name_None:
  "\<not> has_name i ds \<Longrightarrow> last_truthy (map delta_name (frags_for i ds)) = None"
  by (rule last_truthy_None) (simp add: has_name_def list_ex_iff)

lemma ensure_function_merged:
  "ensure_function (merged i ds) =
     \<lparr>fn_name = text_of (last_truthy (map delta_name (frags_for i ds))),
      fn_arguments = argument_text i ds\<rparr>"
  by (simp add: ensure_function_def merged_def argument_text_empty last_truthy_name_None text_of_def)

lemma has_name_snoc:
  "has_name (d_index d) (ds @ [d]) = (has_name (d_index d) ds \<or> truthy (delta_name d))"
  by (auto simp add: has_name_def frags_for_snoc list_ex_iff)

lemma has_arguments_snoc:
  "has_arguments (d_index d) (ds @ [d]) = (has_arguments (d_index d) ds \<or> truthy (delta_arguments d))"
  by (auto simp add: has_arguments_def frags_for_snoc list_ex_iff)

lemma argument_text_snoc:
  "argument_text (d_index d) (ds @ [d]) = argument_text (d_index d) ds @ text_of (delta_arguments d)"
  by (simp add: argument_text_def frags_for_snoc)

lemma merged_same:
  "merged (d_index d) (ds @ [d]) = merge_fields d (merged (d_index d) ds)"
proof (rule PartialToolCall.equality)
  show "p_id (merged (d_index d) (ds @ [d])) = p_id (merge_fields d (merged (d_index d) ds))"
    by (simp add: p_id_merge_fields merged_def frags_for_snoc last_truthy_snoc)
  show "p_type (merged (d_index d) (ds @ [d])) = p_type (merge_fields d (merged (d_index d) ds))"
    by (simp add: p_type_merge_fields merged_def frags_for_snoc last_truthy_snoc)
  show "p_function (merged (d_index d) (ds @ [d])) =
        p_function (merge_fields d (merged (d_index d) ds))"
    unfolding p_function_merge_fields ensure_function_merged
    by (auto simp add: merged_def has_name_snoc has_arguments_snoc argument_text_snoc
        frags_for_snoc last_truthy_snoc text_of_not_truthy)
  show "PartialToolCall.more (merged (d_index d) (ds @ [d])) =
        PartialToolCall.more (merge_fields d (merged (d_index d) ds))"
    by simp
qed

lemma map_get_merge_deltas_empty:
  "map_get (merge_deltas [] ds) i = (if frags_for i ds = [] then None else Some (merged i ds))"
proof (induction ds rule: rev_induct)
  case Nil
  show ?case by (simp add: merge_deltas_def frags_for_def)
next
  case (snoc d ds)
  have step: "merge_deltas [] (ds @ [d]) = merge_delta (merge_deltas [] ds) d"
    by (simp add: merge_deltas_def)
  show ?case
  proof (cases "d_index d = i")
    case False
    then show ?thesis
      using snoc by (simp add: step merge_delta_def map_get_map_set frags_for_snoc merged_other)
  next
    case True
    then show ?thesis
      using snoc merged_same [of d ds]
      by (auto simp add: step merge_delta_def map_get_map_set frags_for_snoc merged_nil)
  qed
qed

lemma first_seen_snoc:
  "first_seen (ks @ [k]) = (if k \<in> set (first_seen ks) then first_seen ks else first_seen ks @ [k])"
  by (simp add: first_seen_def)

lemma keys_merge_deltas: "map fst (merge_deltas [] ds) = first_seen (map d_index ds)"
proof (induction ds rule: rev_induct)
  case Nil
  show ?case by (simp add: merge_deltas_def first_seen_def)
next
  case (snoc d ds)
  have step: "merge_deltas [] (ds @ [d]) = merge_delta (merge_deltas [] ds) d"
    by (simp add: merge_deltas_def)
  show ?case
    using snoc by (simp add: step merge_delta_def keys_map_set first_seen_snoc)
qed

lemma set_first_seen: "set (first_seen ks) = set ks"
  by (induction ks rule: rev_induct) (auto simp: first_seen_snoc first_seen_def)

lemma distinct_first_seen: "distinct (first_seen ks)"
  by (induction ks rule: rev_induct) (auto simp: first_seen_snoc first_seen_def)

lemma map_values_by_keys:
  "distinct (map fst m) \<Longrightarrow> map snd m = map (\<lambda>k. the (map_get m k)) (map fst m)"
  by (induction m) (auto simp: rev_image_eqI)

lemma frags_for_nonempty: "frags_for i ds \<noteq> [] \<longleftrightarrow> i \<in> set (map d_index ds)"
  by (auto simp add: frags_for_def filter_empty_conv)

lemma values_merge_deltas:
  "map_values (merge_deltas [] ds) = map (\<lambda>i. merged i ds) (first_seen (map d_index ds))"
proof -
  have d: "distinct (map fst (merge_deltas [] ds))"
    by (simp add: keys_merge_deltas distinct_first_seen)
  have "map_values (merge_deltas [] ds) =
        map (\<lambda>k. the (map_get (merge_deltas [] ds) k)) (first_seen (map d_index ds))"
    unfolding map_values_def using map_values_by_keys [OF d] by (simp add: keys_merge_deltas)
  also have "\<dots> = map (\<lambda>i. merged i ds) (first_seen (map d_index ds))"
  proof (rule map_cong [OF refl])
    fix k assume "k \<in> set (first_seen (map d_index ds))"
    then have "frags_for k ds \<noteq> []"
      by (simp add: set_first_seen frags_for_nonempty)
    then show "the (map_get (merge_deltas [] ds) k) = merged k ds"
      by (simp add: map_get_merge_deltas_empty)
  qed
  finally show ?thesis .
qed

lemma truthy_last_truthy: "truthy (last_truthy vs) \<longleftrightarrow> list_ex truthy vs"
proof (induction vs rule: rev_induct)
  case Nil
  show ?case by (simp add: last_truthy_def truthy_def)
next
  case (snoc v vs)
  then show ?case by (auto simp add: last_truthy_snoc)
qed

lemma has_id_last: "truthy (last_truthy (map d_id (frags_for i ds))) \<longleftrightarrow> has_id i ds"
  by (simp add: truthy_last_truthy has_id_def list_ex_iff)

lemma has_name_last: "truthy (last_truthy (map delta_name (frags_for i ds))) \<longleftrightarrow> has_name i ds"
  by (simp add: truthy_last_truthy has_name_def list_ex_iff)

lemma text_of_nonempty: "text_of v \<noteq> [] \<longleftrightarrow> truthy v"
  by (simp add: text_of_def truthy_def split: option.splits)

lemma is_complete_merged: "is_complete (merged i ds) \<longleftrightarrow> has_id i ds \<and> has_name i ds"
  by (auto simp add: is_complete_def merged_def has_id_last text_of_nonempty has_name_last)

lemma argument_text_nonempty: "argument_text i ds \<noteq> [] \<longleftrightarrow> has_arguments i ds"
  by (auto simp add: argument_text_def has_arguments_def list_ex_iff text_of_nonempty)

lemma p_id_merged: "p_id (merged i ds) = last_truthy (map d_id (frags_for i ds))"
  by (simp add: merged_def)

lemma to_ToolCall_merged: "to_ToolCall (merged i ds) = call_of i ds"
  by (simp add: to_ToolCall_def call_of_def ensure_function_merged p_id_merged text_of_def
      argument_text_nonempty [symmetric])

lemma finalize_merge_deltas:
  "finalize (merge_deltas [] ds) = map (\<lambda>i. call_of i ds) (complete_indices ds)"
  by (simp add: finalize_def values_merge_deltas filter_map comp_def is_complete_merged
      to_ToolCall_merged complete_indices_def)

lemma has_id_index: "has_id i ds \<Longrightarrow> i \<in> set (map d_index ds)"
  by (auto simp add: has_id_def frags_for_def list_ex_iff)

lemma set_complete_indices: "set (complete_indices ds) = {i. has_id i ds \<and> has_name i ds}"
proof -
  have "\<And>i. has_id i ds \<Longrightarrow> i \<in> d_index ` set ds"
    using has_id_index by simp
  then show ?thesis
    by (auto simp add: complete_indices_def set_first_seen)
qed

lemma distinct_complete_indices: "distinct (complete_indices ds)"
  by (simp add: complete_indices_def distinct_first_seen)

lemma length_complete_indices: "length (complete_indices ds) = card {i. has_id i ds \<and> has_name i ds}"
proof -
  have "card (set (complete_indices ds)) = length (complete_indices ds)"
    by (rule distinct_card) (rule distinct_complete_indices)
  then show ?thesis by (simp add: set_complete_indices)
qed

lemma call_of_cong: "frags_for i ds' = frags_for i ds \<Longrightarrow> call_of i ds' = call_of i ds"
  by (simp add: call_of_def has_arguments_def argument_text_def)

lemma has_id_cong: "frags_for i ds' = frags_for i ds \<Longrightarrow> has_id i ds' = has_id i ds"
  by (simp add: has_id_def)

lemma has_name_cong: "frags_for i ds' = frags_for i ds \<Longrightarrow> has_name i ds' = has_name i ds"
  by (simp add: has_name_def)

lemma mset_finalize_reorder:
  assumes "\<forall>i. frags_for i ds' = frags_for i ds"
  shows "mset (finalize (merge_deltas [] ds')) = mset (finalize (merge_deltas [] ds))"
proof -
  have c: "\<And>i. call_of i ds' = call_of i ds"
    by (rule call_of_cong) (simp add: assms)
  have h: "\<And>i. has_id i ds' = has_id i ds" "\<And>i. has_name i ds' = has_name i ds"
    by (rule has_id_cong, simp add: assms) (rule has_name_cong, simp add: assms)
  have "set (complete_indices ds') = set (complete_indices ds)"
    by (simp add: set_complete_indices h)
  moreover have "(set (complete_indices ds') = set (complete_indices ds)) =
                 (mset (complete_indices ds') = mset (complete_indices ds))"
    by (rule set_eq_iff_mset_eq_distinct) (rule distinct_complete_indices)+
  ultimately have m: "mset (complete_indices ds') = mset (complete_indices ds)"
    by (rule iffD1 [OF _ _, rotated])
  have "mset (finalize (merge_deltas [] ds')) =
        image_mset (\<lambda>i. call_of i ds) (mset (complete_indices ds'))"
    by (simp add: finalize_merge_deltas c)
  also have "\<dots> = mset (finalize (merge_deltas [] ds))"
    by (simp add: m finalize_merge_deltas)
  finally show ?thesis .
qed


section \<open>The orchestration loop: supporting lemmas\<close>

lemma events_append: "events (xs @ ys) = events xs @ events ys"
  by (induction xs rule: events.induct) simp_all

lemma streams_append: "streams (xs @ ys) = streams xs @ streams ys"
  by (induction xs rule: streams.induct) simp_all

lemma dispatches_append: "dispatches (xs @ ys) = dispatches xs @ dispatches ys"
  by (induction xs rule: dispatches.induct) simp_all

lemma pushes_append: "pushes (xs @ ys) = pushes xs @ pushes ys"
  by (induction xs rule: pushes.induct) simp_all

lemma readers_map_Yield:
  "events (map Yield es) = es" "streams (map Yield es) = []"
  "dispatches (map Yield es) = []" "pushes (map Yield es) = []"
  by (induction es) simp_all

declare loop.simps [simp del]

declare show_nat.simps [simp del]

lemma loop_stop:
  "\<not> (continueLoop \<and> iteration < MAX_ITERATIONS) \<Longrightarrow>
     loop env tools h continueLoop iteration s = ([], iteration, s)"
  by (subst loop.simps) auto

lemma loop_step:
  "continueLoop \<Longrightarrow> iteration < MAX_ITERATIONS \<Longrightarrow>
     loop env tools h continueLoop iteration s =
       (case iteration_body env tools h s of
          (acts, Break, s1) \<Rightarrow> (acts, iteration + 1, s1)
        | (acts, Next c, s1) \<Rightarrow>
            (let (acts', n, s2) = loop env tools h c (iteration + 1) s1
             in (acts @ acts', n, s2)))"
  by (subst loop.simps) simp

lemma accumulate_failed:
  assumes "chatStream env (world s) (arrays s h) tools = (stream, w)" "s_error stream = Some message"
  shows "accumulateStreamingResponse env h tools s =
           (turn_prefix (arrays s h) stream, Inl message, s\<lparr>world := w\<rparr>)"
  using assms
  by (simp add: accumulateStreamingResponse_def turn_prefix_def content_events_def split_def Let_def)

lemma accumulate_returned:
  assumes "chatStream env (world s) (arrays s h) tools = (stream, w)" "s_error stream = None"
  shows "accumulateStreamingResponse env h tools s =
           (turn_prefix (arrays s h) stream, Inr (response (collected stream) (now env w)),
            s\<lparr>world := w\<rparr>)"
  using assms
  by (simp add: accumulateStreamingResponse_def turn_prefix_def content_events_def split_def collected_def Let_def)

lemma response_fields:
  "toolCalls (response a t) = finalize (acc_toolCallsBuffer a)"
  "finishReason (response a t) = acc_finishReason a"
  "msg_role (assistantMessage (response a t)) = Assistant"
  "msg_content (assistantMessage (response a t)) = acc_contentBuffer a"
  "msg_tool_calls (assistantMessage (response a t)) =
     (if finalize (acc_toolCallsBuffer a) \<noteq> [] then Some (finalize (acc_toolCallsBuffer a)) else None)"
  "msg_tool_call_id (assistantMessage (response a t)) = None"
  "msg_timestamp (assistantMessage (response a t)) = t"
  by (simp_all add: response_def Let_def)

lemma body_failed:
  assumes "chatStream env (world s) (arrays s h) tools = (stream, w)" "s_error stream = Some message"
  shows "iteration_body env tools h s =
           (turn_prefix (arrays s h) stream @ [Yield (Error message)], Break, s\<lparr>world := w\<rparr>)"
  by (simp add: iteration_body_def accumulate_failed [OF assms])

lemma body_tools:
  assumes "chatStream env (world s) (arrays s h) tools = (stream, w)" "s_error stream = None"
    "wants_tools stream"
  shows "iteration_body env tools h s =
           (let r = response (collected stream) (now env w);
                (acts', s3) = run_tools env tools h (toolCalls r)
                                (push h (assistantMessage r) (s\<lparr>world := w\<rparr>))
            in (turn_prefix (arrays s h) stream @ [Push (assistantMessage r)] @ acts',
                Next True, s3))"
  using assms(3)
  by (simp add: iteration_body_def accumulate_returned [OF assms(1,2)] response_fields
      wants_tools_def Let_def split_def)

lemma body_final:
  assumes "chatStream env (world s) (arrays s h) tools = (stream, w)" "s_error stream = None"
    "\<not> wants_tools stream"
  shows "iteration_body env tools h s =
           (let r = response (collected stream) (now env w)
            in (turn_prefix (arrays s h) stream @ [Push (assistantMessage r)],
                Next False, push h (assistantMessage r) (s\<lparr>world := w\<rparr>)))"
  using assms(3)
  by (simp add: iteration_body_def accumulate_returned [OF assms(1,2)] response_fields
      wants_tools_def Let_def split_def)

subsection \<open>What a stream leaves in the locals\<close>

lemma chunk_fragments_Cons:
  "chunk_fragments (chunk # rest) =
     (if is_tool_call_event chunk
      then (case c_tool_call chunk of None \<Rightarrow> [] | Some p \<Rightarrow> deltas_of p) @ chunk_fragments rest
      else chunk_fragments rest)"
  by (simp add: chunk_fragments_def)

lemma buffer_stream_content: "acc_toolCallsBuffer (snd (stream_content a chunk)) = acc_toolCallsBuffer a"
  by (simp add: stream_content_def)

lemma reason_stream_content: "acc_finishReason (snd (stream_content a chunk)) = acc_finishReason a"
  by (simp add: stream_content_def)

lemma buffer_accumulate_tool_call:
  "acc_toolCallsBuffer (accumulate_tool_call a chunk) =
     (if is_tool_call_event chunk
      then merge_deltas (acc_toolCallsBuffer a)
             (case c_tool_call chunk of None \<Rightarrow> [] | Some p \<Rightarrow> deltas_of p)
      else acc_toolCallsBuffer a)"
  by (simp add: accumulate_tool_call_def is_tool_call_event_def split: option.splits)

lemma reason_accumulate_tool_call:
  "acc_finishReason (accumulate_tool_call a chunk) =
     (if is_tool_call_event chunk then ''tool_calls'' else acc_finishReason a)"
  by (simp add: accumulate_tool_call_def is_tool_call_event_def split: option.splits)

lemma merge_deltas_append:
  "merge_deltas b (ds @ ds') = merge_deltas (merge_deltas b ds) ds'"
  by (simp add: merge_deltas_def)

lemma buffer_consume:
  "acc_toolCallsBuffer (snd (consume a chunks)) =
     merge_deltas (acc_toolCallsBuffer a) (chunk_fragments chunks)"
proof (induction chunks arbitrary: a)
  case Nil
  show ?case by (simp add: chunk_fragments_def merge_deltas_def)
next
  case (Cons chunk rest)
  show ?case
    by (simp add: split_def Let_def Cons.IH chunk_fragments_Cons buffer_accumulate_tool_call
        buffer_stream_content merge_deltas_append)
qed

lemma reason_consume:
  "acc_finishReason (snd (consume a chunks)) =
     (if list_ex is_tool_call_event chunks then ''tool_calls'' else acc_finishReason a)"
proof (induction chunks arbitrary: a)
  case Nil
  show ?case by simp
next
  case (Cons chunk rest)
  show ?case
    by (simp add: split_def Let_def Cons.IH reason_accumulate_tool_call reason_stream_content)
qed

lemma buffer_collected:
  "acc_toolCallsBuffer (collected stream) = merge_deltas [] (fragments stream)"
  by (simp add: collected_def buffer_consume fragments_def initial_locals_def)

lemma reason_collected:
  "acc_finishReason (collected stream) =
     (if list_ex is_tool_call_event (s_chunks stream) then ''tool_calls'' else ''stop'')"
  by (simp add: collected_def reason_consume initial_locals_def)

lemma no_event_no_fragments:
  "\<not> list_ex is_tool_call_event chunks \<Longrightarrow> chunk_fragments chunks = []"
  by (simp add: chunk_fragments_def list_ex_iff filter_False)

lemma stop_no_calls:
  assumes "acc_finishReason (collected stream) = ''stop''"
  shows "finalize (acc_toolCallsBuffer (collected stream)) = []"
proof -
  have "\<not> list_ex is_tool_call_event (s_chunks stream)"
    using assms by (simp add: reason_collected split: if_splits)
  then have "fragments stream = []"
    by (simp add: fragments_def no_event_no_fragments)
  then show ?thesis
    by (simp add: buffer_collected merge_deltas_def finalize_def map_values_def)
qed

lemma stop_not_wants_tools:
  "acc_finishReason (collected stream) = ''stop'' \<Longrightarrow> \<not> wants_tools stream"
  by (simp add: wants_tools_def)

lemma calls_wants_tools:
  assumes "finalize (acc_toolCallsBuffer (collected stream)) \<noteq> []"
  shows "wants_tools stream"
proof -
  have "acc_finishReason (collected stream) \<noteq> ''stop''"
    using assms stop_no_calls by blast
  then have "acc_finishReason (collected stream) = ''tool_calls''"
    by (simp add: reason_collected split: if_splits)
  then show ?thesis
    using assms by (simp add: wants_tools_def)
qed

lemma wants_tools_iff:
  "wants_tools stream \<longleftrightarrow> finalize (acc_toolCallsBuffer (collected stream)) \<noteq> []"
  using calls_wants_tools by (auto simp add: wants_tools_def)

subsection \<open>The store\<close>

lemma grows_refl: "pushes acts = [] \<Longrightarrow> arrays s' = arrays s \<Longrightarrow> free s' = free s \<Longrightarrow> grows h acts s s'"
  by (simp add: grows_def)

lemma grows_push: "grows h [Push m] s (push h m s)"
  by (simp add: grows_def push_def)

lemma grows_trans: "grows h acts s s1 \<Longrightarrow> grows h acts' s1 s2 \<Longrightarrow> grows h (acts @ acts') s s2"
  by (auto simp add: grows_def pushes_append fun_eq_iff)

lemma grows_world: "grows h acts s s' \<Longrightarrow> grows h acts (s\<lparr>world := w\<rparr>) s'"
  by (simp add: grows_def)

subsection \<open>One dispatch\<close>

lemma run_tool_thrown:
  assumes "executeToolCallWithTimeout env toolCall tools (world s) = (Inl message, w)"
  shows "run_tool env tools h toolCall s =
           (block toolCall
              \<lparr>msg_role = Tool,
               msg_content = ''Error executing '' @ fn_name (tc_function toolCall) @ '': '' @ message,
               msg_tool_calls = None,
               msg_tool_call_id = Some (tc_id toolCall),
               msg_timestamp = now env w\<rparr> True,
            push h
              \<lparr>msg_role = Tool,
               msg_content = ''Error executing '' @ fn_name (tc_function toolCall) @ '': '' @ message,
               msg_tool_calls = None,
               msg_tool_call_id = Some (tc_id toolCall),
               msg_timestamp = now env w\<rparr> (s\<lparr>world := w\<rparr>))"
  using assms by (simp add: run_tool_def block_def Let_def)

lemma run_tool_returned:
  assumes "executeToolCallWithTimeout env toolCall tools (world s) = (Inr result, w)"
  shows "run_tool env tools h toolCall s =
           (block toolCall
              \<lparr>msg_role = Tool,
               msg_content = formatToolResult env result,
               msg_tool_calls = None,
               msg_tool_call_id = Some (tc_id toolCall),
               msg_timestamp = now env w\<rparr> (res_isError result = Some True),
            push h
              \<lparr>msg_role = Tool,
               msg_content = formatToolResult env result,
               msg_tool_calls = None,
               msg_tool_call_id = Some (tc_id toolCall),
               msg_timestamp = now env w\<rparr> (s\<lparr>world := w\<rparr>))"
  using assms by (simp add: run_tool_def block_def Let_def)

lemma pushes_block: "pushes (block c m b) = [m]"
  by (simp add: block_def)

lemma readers_block:
  "streams (block c m b) = []" "dispatches (block c m b) = [c]"
  "events (block c m b) =
     [Tool_execution_start (fn_name (tc_function c)) (tc_id c),
      Tool_execution_result (fn_name (tc_function c)) (tc_id c) b]"
  by (simp_all add: block_def)

lemma grows_block: "grows h (block c m b) (s\<lparr>world := w\<rparr>) (push h m (s\<lparr>world := w\<rparr>))"
  by (simp add: grows_def push_def pushes_block)

lemma run_tool_block:
  "\<exists>m b. fst (run_tool env tools h toolCall s) = block toolCall m b \<and>
         msg_role m = Tool \<and> msg_tool_call_id m = Some (tc_id toolCall) \<and>
         grows h (block toolCall m b) s (snd (run_tool env tools h toolCall s))"
proof -
  obtain outcome w where e: "executeToolCallWithTimeout env toolCall tools (world s) = (outcome, w)"
    by (cases "executeToolCallWithTimeout env toolCall tools (world s)")
  show ?thesis
  proof (cases outcome)
    case (Inl message)
    show ?thesis
      unfolding run_tool_thrown [OF e [unfolded Inl]]
      using grows_block [THEN grows_world [where s = "s\<lparr>world := w\<rparr>" and w = "world s"]]
      by (intro exI conjI) (simp_all add: grows_def push_def pushes_block)
  next
    case (Inr result)
    show ?thesis
      unfolding run_tool_returned [OF e [unfolded Inr]]
      by (intro exI conjI) (simp_all add: grows_def push_def pushes_block)
  qed
qed

subsection \<open>The dispatches of a turn\<close>

lemma blocks_Nil: "blocks [] ms flags = []"
  by (simp add: blocks_def)

lemma blocks_Cons: "blocks (c # cs) (m # ms) (b # flags) = block c m b @ blocks cs ms flags"
  by (simp add: blocks_def)

lemma run_tools_blocks:
  "\<exists>ms flags. length ms = length calls \<and> length flags = length calls \<and>
     fst (run_tools env tools h calls s) = blocks calls ms flags \<and>
     map msg_role ms = replicate (length calls) Tool \<and>
     map msg_tool_call_id ms = map (\<lambda>c. Some (tc_id c)) calls \<and>
     grows h (blocks calls ms flags) s (snd (run_tools env tools h calls s))"
proof (induction calls arbitrary: s)
  case Nil
  show ?case
    by (rule exI [of _ "[]"], rule exI [of _ "[]"]) (simp add: blocks_Nil grows_def)
next
  case (Cons c cs)
  obtain m b where one:
    "fst (run_tool env tools h c s) = block c m b" "msg_role m = Tool"
    "msg_tool_call_id m = Some (tc_id c)"
    "grows h (block c m b) s (snd (run_tool env tools h c s))"
    using run_tool_block by blast
  obtain ms flags where more:
    "length ms = length cs" "length flags = length cs"
    "fst (run_tools env tools h cs (snd (run_tool env tools h c s))) = blocks cs ms flags"
    "map msg_role ms = replicate (length cs) Tool"
    "map msg_tool_call_id ms = map (\<lambda>c. Some (tc_id c)) cs"
    "grows h (blocks cs ms flags) (snd (run_tool env tools h c s))
       (snd (run_tools env tools h cs (snd (run_tool env tools h c s))))"
    using Cons.IH by blast
  show ?case
    apply (rule exI [of _ "m # ms"], rule exI [of _ "b # flags"])
    using one more grows_trans [OF one(4) more(6)]
    by (simp add: split_def Let_def blocks_Cons)
qed

lemma readers_blocks:
  assumes "length ms = length calls" "length flags = length calls"
  shows "streams (blocks calls ms flags) = []" "dispatches (blocks calls ms flags) = calls"
    "pushes (blocks calls ms flags) = ms"
    "filter is_error (events (blocks calls ms flags)) = []"
    "length (filter is_tool_event (events (blocks calls ms flags))) = 2 * length calls"
  using assms
proof (induction calls arbitrary: ms flags)
  case Nil
  {
    case 1 show ?case by (simp add: blocks_Nil)
  next
    case 2 show ?case by (simp add: blocks_Nil)
  next
    case 3 then show ?case by (simp add: blocks_Nil)
  next
    case 4 show ?case by (simp add: blocks_Nil)
  next
    case 5 show ?case by (simp add: blocks_Nil)
  }
next
  case (Cons c cs)
  {
    case 1
    then obtain m ms' b flags' where "ms = m # ms'" "flags = b # flags'"
      by (cases ms; cases flags) auto
    with 1 Cons.IH(1) [of ms' flags'] show ?case
      by (simp add: blocks_Cons streams_append readers_block)
  next
    case 2
    then obtain m ms' b flags' where "ms = m # ms'" "flags = b # flags'"
      by (cases ms; cases flags) auto
    with 2 Cons.IH(2) [of ms' flags'] show ?case
      by (simp add: blocks_Cons dispatches_append readers_block)
  next
    case 3
    then obtain m ms' b flags' where "ms = m # ms'" "flags = b # flags'"
      by (cases ms; cases flags) auto
    with 3 Cons.IH(3) [of ms' flags'] show ?case
      by (simp add: blocks_Cons pushes_append pushes_block)
  next
    case 4
    then obtain m ms' b flags' where "ms = m # ms'" "flags = b # flags'"
      by (cases ms; cases flags) auto
    with 4 Cons.IH(4) [of ms' flags'] show ?case
      by (simp add: blocks_Cons events_append readers_block is_error_def)
  next
    case 5
    then obtain m ms' b flags' where "ms = m # ms'" "flags = b # flags'"
      by (cases ms; cases flags) auto
    with 5 Cons.IH(5) [of ms' flags'] show ?case
      by (simp add: blocks_Cons events_append readers_block is_tool_event_def)
  }
qed

lemma blocks_last:
  assumes "length ms = length calls" "length flags = length calls" "calls \<noteq> []"
  shows "\<exists>pre n c b. blocks calls ms flags = pre @ [Yield (Tool_execution_result n c b)]"
  using assms
proof (induction calls arbitrary: ms flags)
  case Nil
  then show ?case by simp
next
  case (Cons c cs)
  then obtain m ms' b flags' where eq: "ms = m # ms'" "flags = b # flags'"
    by (cases ms; cases flags) auto
  show ?case
  proof (cases "cs = []")
    case True
    with Cons.prems eq show ?thesis
      by (simp add: blocks_Cons blocks_Nil block_def)
  next
    case False
    with Cons.IH [of ms' flags'] Cons.prems eq
    obtain pre n c' b' where "blocks cs ms' flags' = pre @ [Yield (Tool_execution_result n c' b')]"
      by auto
    then show ?thesis
      by (simp add: eq blocks_Cons)
  qed
qed

subsection \<open>One pass of the loop\<close>

lemma readers_turn_prefix:
  "streams (turn_prefix transcript stream) = [stream]"
  "dispatches (turn_prefix transcript stream) = []"
  "pushes (turn_prefix transcript stream) = []"
  "events (turn_prefix transcript stream) = content_events stream"
  by (simp_all add: turn_prefix_def readers_map_Yield)

lemma is_content_consume: "filter is_error (fst (consume a chunks)) = [] \<and>
    filter is_tool_event (fst (consume a chunks)) = []"
  by (induction chunks arbitrary: a)
    (simp_all add: split_def Let_def stream_content_def is_error_def is_tool_event_def)

lemma content_events_plain:
  "filter is_error (content_events stream) = []"
  "filter is_tool_event (content_events stream) = []"
  by (simp_all add: content_events_def is_content_consume)

lemma body_tools_blocks:
  assumes "chatStream env (world s) (arrays s h) tools = (stream, w)" "s_error stream = None"
    "wants_tools stream"
  shows "\<exists>ms flags s'.
           length ms = length (finalize (acc_toolCallsBuffer (collected stream))) \<and>
           length flags = length (finalize (acc_toolCallsBuffer (collected stream))) \<and>
           map msg_role ms = replicate (length ms) Tool \<and>
           map msg_tool_call_id ms =
             map (\<lambda>c. Some (tc_id c)) (finalize (acc_toolCallsBuffer (collected stream))) \<and>
           iteration_body env tools h s =
             (turn_prefix (arrays s h) stream @
                [Push (assistantMessage (response (collected stream) (now env w)))] @
                blocks (finalize (acc_toolCallsBuffer (collected stream))) ms flags,
              Next True, s') \<and>
           grows h ([Push (assistantMessage (response (collected stream) (now env w)))] @
                      blocks (finalize (acc_toolCallsBuffer (collected stream))) ms flags) s s'"
proof -
  let ?r = "response (collected stream) (now env w)"
  let ?calls = "finalize (acc_toolCallsBuffer (collected stream))"
  let ?s2 = "push h (assistantMessage ?r) (s\<lparr>world := w\<rparr>)"
  obtain ms flags where run:
    "length ms = length ?calls" "length flags = length ?calls"
    "fst (run_tools env tools h ?calls ?s2) = blocks ?calls ms flags"
    "map msg_role ms = replicate (length ?calls) Tool"
    "map msg_tool_call_id ms = map (\<lambda>c. Some (tc_id c)) ?calls"
    "grows h (blocks ?calls ms flags) ?s2 (snd (run_tools env tools h ?calls ?s2))"
    using run_tools_blocks by blast
  have g: "grows h [Push (assistantMessage ?r)] s ?s2"
    by (simp add: grows_def push_def)
  show ?thesis
    apply (rule exI [of _ ms], rule exI [of _ flags],
        rule exI [of _ "snd (run_tools env tools h ?calls ?s2)"])
    using run grows_trans [OF g run(6)]
    by (simp add: body_tools [OF assms] Let_def split_def response_fields)
qed

lemma body_grows:
  "grows h (fst (iteration_body env tools h s)) s (snd (snd (iteration_body env tools h s)))"
proof -
  obtain stream w where c: "chatStream env (world s) (arrays s h) tools = (stream, w)"
    by (cases "chatStream env (world s) (arrays s h) tools")
  show ?thesis
  proof (cases "s_error stream")
    case (Some message)
    show ?thesis
      by (simp add: body_failed [OF c Some] grows_def pushes_append readers_turn_prefix)
  next
    case None
    show ?thesis
    proof (cases "wants_tools stream")
      case True
      from body_tools_blocks [OF c None True] obtain ms flags s' where
        b: "iteration_body env tools h s =
             (turn_prefix (arrays s h) stream @
                [Push (assistantMessage (response (collected stream) (now env w)))] @
                blocks (finalize (acc_toolCallsBuffer (collected stream))) ms flags,
              Next True, s')"
        and g: "grows h ([Push (assistantMessage (response (collected stream) (now env w)))] @
                      blocks (finalize (acc_toolCallsBuffer (collected stream))) ms flags) s s'"
        by blast
      show ?thesis
        using g by (simp add: b grows_def pushes_append readers_turn_prefix)
    next
      case False
      show ?thesis
        by (simp add: body_final [OF c None False] Let_def grows_def push_def pushes_append
            readers_turn_prefix)
    qed
  qed
qed

lemma body_head:
  "\<exists>rest. fst (iteration_body env tools h s) =
     ChatStream (arrays s h) (fst (chatStream env (world s) (arrays s h) tools)) # rest"
proof -
  obtain stream w where c: "chatStream env (world s) (arrays s h) tools = (stream, w)"
    by (cases "chatStream env (world s) (arrays s h) tools")
  show ?thesis
  proof (cases "s_error stream")
    case (Some message)
    show ?thesis
      by (simp add: body_failed [OF c Some] c turn_prefix_def)
  next
    case None
    show ?thesis
    proof (cases "wants_tools stream")
      case True
      show ?thesis
        by (simp add: body_tools [OF c None True] c turn_prefix_def Let_def split_def)
    next
      case False
      show ?thesis
        by (simp add: body_final [OF c None False] c turn_prefix_def Let_def)
    qed
  qed
qed

subsection \<open>The loop\<close>

lemma loop_grows:
  "grows h (fst (loop env tools h c i s)) s (snd (snd (loop env tools h c i s)))"
proof (induction "MAX_ITERATIONS - i" arbitrary: i s c)
  case 0
  then show ?case by (simp add: loop_stop grows_def)
next
  case (Suc k)
  show ?case
  proof (cases "c \<and> i < MAX_ITERATIONS")
    case False
    then show ?thesis by (simp add: loop_stop grows_def)
  next
    case True
    obtain acts flow s1 where b: "iteration_body env tools h s = (acts, flow, s1)"
      by (cases "iteration_body env tools h s")
    have g1: "grows h acts s s1"
      using body_grows [of h env tools s] by (simp add: b)
    show ?thesis
    proof (cases flow)
      case Break
      with True b g1 show ?thesis by (simp add: loop_step)
    next
      case (Next c')
      have "k = MAX_ITERATIONS - (i + 1)" using Suc.hyps(2) by simp
      then have g2: "grows h (fst (loop env tools h c' (i + 1) s1)) s1
                       (snd (snd (loop env tools h c' (i + 1) s1)))"
        by (rule Suc.hyps(1))
      show ?thesis
        using True b Next grows_trans [OF g1 g2]
        by (simp add: loop_step split_def Let_def)
    qed
  qed
qed

lemma loop_head:
  assumes "c" "i < MAX_ITERATIONS"
  shows "\<exists>rest. fst (loop env tools h c i s) =
     ChatStream (arrays s h) (fst (chatStream env (world s) (arrays s h) tools)) # rest"
proof -
  obtain acts flow s1 where b: "iteration_body env tools h s = (acts, flow, s1)"
    by (cases "iteration_body env tools h s")
  obtain rest where r: "acts = ChatStream (arrays s h) (fst (chatStream env (world s) (arrays s h) tools)) # rest"
    using body_head [of env tools h s] by (auto simp add: b)
  show ?thesis
    using assms by (cases flow) (simp_all add: loop_step b r split_def Let_def)
qed

lemma loop_only_tool_turns:
  assumes "\<forall>stream \<in> set (streams (fst (loop env tools h True i s))).
             s_error stream = None \<and> wants_tools stream"
    and "i < MAX_ITERATIONS"
  shows "fst (snd (loop env tools h True i s)) = MAX_ITERATIONS \<and>
         length (streams (fst (loop env tools h True i s))) = MAX_ITERATIONS - i \<and>
         filter is_error (events (fst (loop env tools h True i s))) = [] \<and>
         (\<exists>pre n c b. fst (loop env tools h True i s) = pre @ [Yield (Tool_execution_result n c b)])"
  using assms
proof (induction "MAX_ITERATIONS - i" arbitrary: i s)
  case 0
  then show ?case by simp
next
  case (Suc k)
  obtain stream w where c: "chatStream env (world s) (arrays s h) tools = (stream, w)"
    by (cases "chatStream env (world s) (arrays s h) tools")
  have "stream \<in> set (streams (fst (loop env tools h True i s)))"
    using loop_head [OF TrueI Suc.prems(2), of env tools h s] by (auto simp add: c)
  then have ok: "s_error stream = None" "wants_tools stream"
    using Suc.prems(1) by auto
  let ?calls = "finalize (acc_toolCallsBuffer (collected stream))"
  from body_tools_blocks [OF c ok] obtain ms flags s' where
    len: "length ms = length ?calls" "length flags = length ?calls"
    and b: "iteration_body env tools h s =
             (turn_prefix (arrays s h) stream @
                [Push (assistantMessage (response (collected stream) (now env w)))] @
                blocks ?calls ms flags,
              Next True, s')"
    by blast
  let ?turn = "turn_prefix (arrays s h) stream @
                [Push (assistantMessage (response (collected stream) (now env w)))] @
                blocks ?calls ms flags"
  have unfold: "loop env tools h True i s =
      (?turn @ fst (loop env tools h True (Suc i) s'),
       fst (snd (loop env tools h True (Suc i) s')),
       snd (snd (loop env tools h True (Suc i) s')))"
    using Suc.prems(2) by (simp add: loop_step b split_def Let_def)
  have nonempty: "?calls \<noteq> []"
    using ok(2) by (simp add: wants_tools_def)
  have turn_streams: "streams ?turn = [stream]"
    by (simp add: streams_append readers_turn_prefix readers_blocks [OF len])
  have turn_errors: "filter is_error (events ?turn) = []"
    by (simp add: events_append readers_turn_prefix content_events_plain readers_blocks [OF len])
  obtain pre n c' b' where last: "blocks ?calls ms flags = pre @ [Yield (Tool_execution_result n c' b')]"
    using blocks_last [OF len nonempty] by blast
  show ?case
  proof (cases "Suc i < MAX_ITERATIONS")
    case False
    then have stop: "loop env tools h True (Suc i) s' = ([], Suc i, s')"
      by (simp add: loop_stop)
    have full: "Suc i = MAX_ITERATIONS"
      using False Suc.prems(2) by simp
    have tr: "fst (loop env tools h True i s) = ?turn"
      by (simp add: unfold stop)
    have "fst (snd (loop env tools h True i s)) = Suc i"
      by (simp add: unfold stop)
    then have "fst (snd (loop env tools h True i s)) = MAX_ITERATIONS"
      by (simp only: full)
    moreover have "length (streams (fst (loop env tools h True i s))) = MAX_ITERATIONS - i"
      using full by (simp only: tr turn_streams) simp
    moreover have "filter is_error (events (fst (loop env tools h True i s))) = []"
      by (simp only: tr turn_errors)
    moreover have "fst (loop env tools h True i s) =
        (turn_prefix (arrays s h) stream @
           [Push (assistantMessage (response (collected stream) (now env w)))] @ pre) @
        [Yield (Tool_execution_result n c' b')]"
      by (simp only: tr last) simp
    then have "\<exists>pre n c b. fst (loop env tools h True i s) =
        pre @ [Yield (Tool_execution_result n c b)]"
      by (intro exI)
    ultimately show ?thesis
      by (intro conjI)
  next
    case True
    have k: "k = MAX_ITERATIONS - (Suc i)"
      using Suc.hyps(2) by simp
    have sub: "\<forall>stream \<in> set (streams (fst (loop env tools h True (Suc i) s'))).
             s_error stream = None \<and> wants_tools stream"
      using Suc.prems(1) by (simp add: unfold streams_append)
    from Suc.hyps(1) [OF k sub True]
    obtain pre2 n2 c2 b2 where ih:
      "fst (snd (loop env tools h True (Suc i) s')) = MAX_ITERATIONS"
      "length (streams (fst (loop env tools h True (Suc i) s'))) = MAX_ITERATIONS - (Suc i)"
      "filter is_error (events (fst (loop env tools h True (Suc i) s'))) = []"
      "fst (loop env tools h True (Suc i) s') = pre2 @ [Yield (Tool_execution_result n2 c2 b2)]"
      by blast
    have tr: "fst (loop env tools h True i s) = ?turn @ fst (loop env tools h True (Suc i) s')"
      by (simp add: unfold)
    have "fst (snd (loop env tools h True i s)) = MAX_ITERATIONS"
      using ih(1) by (simp add: unfold)
    moreover have "streams (fst (loop env tools h True i s)) =
        stream # streams (fst (loop env tools h True (Suc i) s'))"
      by (simp only: tr streams_append [of ?turn] turn_streams) simp
    then have "length (streams (fst (loop env tools h True i s))) = MAX_ITERATIONS - i"
      using ih(2) True by simp
    moreover have "filter is_error (events (fst (loop env tools h True i s))) = []"
      by (simp only: tr events_append [of ?turn] filter_append turn_errors ih(3)) simp
    moreover have "fst (loop env tools h True i s) =
        (?turn @ pre2) @ [Yield (Tool_execution_result n2 c2 b2)]"
      by (simp only: tr ih(4)) simp
    then have "\<exists>pre n c b. fst (loop env tools h True i s) =
        pre @ [Yield (Tool_execution_result n c b)]"
      by (intro exI)
    ultimately show ?thesis
      by (intro conjI)
  qed
qed


subsection \<open>Claims about the accumulator\<close>

lemmas fragment_defs =
  frag_a_def frag_x_def frag_b_def two_ids_def frag_0_def frag_1_def frag_2_def
  stream_order_def other_order_def call_0_def call_1_def

lemmas accumulator_defs =
  merge_deltas_def merge_delta_def merge_fields_def merge_id_def merge_type_def merge_name_def
  merge_arguments_def delta_name_def delta_arguments_def ensure_function_def empty_partial_def
  truthy_def finalize_def map_values_def is_complete_def to_ToolCall_def

lemmas reading_defs =
  frags_for_def first_truthy_def last_truthy_def text_of_def argument_text_def has_id_def
  has_name_def has_arguments_def first_seen_def complete_indices_def call_of_def

text \<open>
  C4, as the code has it. After any fragment sequence, an index holds a record exactly
  when some fragment carried that index, and then: the id and the kind are those of the
  last fragment of that index that carried a non-empty one (a later id replaces an earlier
  one); the name is the last non-empty name fragment; the argument text is the
  concatenation, in order, of the argument fragments of that index.
\<close>

theorem merge_rule_per_field:
  "case map_get (merge_deltas [] ds) i of
     None \<Rightarrow> frags_for i ds = []
   | Some e \<Rightarrow>
       frags_for i ds \<noteq> [] \<and>
       p_id e = last_truthy (map d_id (frags_for i ds)) \<and>
       p_type e = last_truthy (map d_type (frags_for i ds)) \<and>
       (p_function e \<noteq> None) = (has_name i ds \<or> has_arguments i ds) \<and>
       fn_name (ensure_function e) = text_of (last_truthy (map delta_name (frags_for i ds))) \<and>
       fn_arguments (ensure_function e) = argument_text i ds"
  by (simp add: map_get_merge_deltas_empty ensure_function_merged) (simp add: merged_def)

theorem merge_rule_per_field_witness:
  "map_get (merge_deltas [] two_ids) 0 =
     Some \<lparr>p_id = Some ''call_b'', p_type = Some ''function'',
           p_function = Some \<lparr>fn_name = ''lookup'', fn_arguments = ''[1,2]''\<rparr>\<rparr> \<and>
   last_truthy (map d_id (frags_for 0 two_ids)) = Some ''call_b'' \<and>
   argument_text 0 two_ids = ''[1,2]''"
  using merge_rule_per_field [where ds = two_ids and i = 0]
  by (simp add: fragment_defs accumulator_defs reading_defs)

text \<open>
  C4 as stated fails: two fragments of index 0 carry the ids \<open>call_a\<close> and \<open>call_b\<close>;
  the first non-empty id is \<open>call_a\<close>, the merged record holds \<open>call_b\<close>.
\<close>

theorem first_id_does_not_persist:
  "first_truthy (map d_id (frags_for 0 two_ids)) = Some ''call_a'' \<and>
   map_option p_id (map_get (merge_deltas [] two_ids) 0) = Some (Some ''call_b'')"
  by (simp add: fragment_defs accumulator_defs reading_defs)

text \<open>
  C5, as the code has it. Finalization returns one call per index that received both a
  non-empty id and a non-empty name, in the order in which those indices first appear in
  the stream; their number is the number of such indices; a call whose index received no
  argument text carries \<open>{}\<close>; and two fragment sequences that agree on the fragments
  of every index give the same calls as a multiset (the order of the list may differ).
\<close>

theorem finalize_by_index:
  "finalize (merge_deltas [] ds) = map (\<lambda>i. call_of i ds) (complete_indices ds) \<and>
   length (finalize (merge_deltas [] ds)) = card {i. has_id i ds \<and> has_name i ds} \<and>
   (\<forall>i \<in> set (complete_indices ds).
      \<not> has_arguments i ds \<longrightarrow> fn_arguments (tc_function (call_of i ds)) = ''{}'') \<and>
   ((\<forall>i. frags_for i ds' = frags_for i ds) \<longrightarrow>
      mset (finalize (merge_deltas [] ds')) = mset (finalize (merge_deltas [] ds)))"
proof -
  have "length (finalize (merge_deltas [] ds)) = card {i. has_id i ds \<and> has_name i ds}"
    by (simp add: finalize_merge_deltas length_complete_indices)
  moreover have "\<forall>i \<in> set (complete_indices ds).
      \<not> has_arguments i ds \<longrightarrow> fn_arguments (tc_function (call_of i ds)) = ''{}''"
    by (simp add: call_of_def)
  ultimately show ?thesis
    using finalize_merge_deltas mset_finalize_reorder by blast
qed

theorem finalize_by_index_witness:
  "(\<forall>i. frags_for i other_order = frags_for i stream_order) \<and>
   mset (finalize (merge_deltas [] other_order)) = mset (finalize (merge_deltas [] stream_order)) \<and>
   length (finalize (merge_deltas [] stream_order)) = 2 \<and>
   0 \<in> set (complete_indices stream_order) \<and> \<not> has_arguments 0 stream_order \<and>
   fn_arguments (tc_function (call_of 0 stream_order)) = ''{}''"
proof -
  have same: "\<forall>i. frags_for i other_order = frags_for i stream_order"
    by (simp add: fragment_defs frags_for_def)
  have idx: "complete_indices stream_order = [0, 1]"
    by (simp add: fragment_defs reading_defs delta_name_def truthy_def)
  have noargs: "\<not> has_arguments 0 stream_order"
    by (simp add: fragment_defs reading_defs delta_arguments_def truthy_def)
  from finalize_by_index [where ds = stream_order and ds' = other_order] same idx noargs
  show ?thesis by simp
qed

text \<open>
  C5 as stated fails: the two sequences deliver the same fragments to every index, in
  another interleaving, and finalization returns the two calls in another order.
\<close>

theorem finalize_order_depends_on_interleaving:
  "frags_for 0 other_order = frags_for 0 stream_order \<and>
   frags_for 1 other_order = frags_for 1 stream_order \<and>
   frags_for 2 other_order = frags_for 2 stream_order \<and>
   finalize (merge_deltas [] stream_order) = [call_0, call_1] \<and>
   finalize (merge_deltas [] other_order) = [call_1, call_0] \<and>
   call_0 \<noteq> call_1"
  by (simp add: fragment_defs accumulator_defs frags_for_def)


section \<open>Claims about the orchestration loop\<close>

lemmas example_defs =
  parse_example_def ok_result_def error_result_def provider_example_def scripted_def tool_def
  catalog_def user_message_def start_def content_chunk_def request_def tool_chunk_def
  answer_stream_def steps_stream_def failing_tools_stream_def no_id_stream_def
  invalid_arguments_stream_def steps_call_def always_def then_answer_def
  missing_call_def sleep_call_def invalid_call_def slow_call_def down_call_def

lemmas run_defs =
  chatWithTools_def spread_def push_def iteration_body_def accumulateStreamingResponse_def
  response_def initial_locals_def deltas_of_def stream_content_def accumulate_tool_call_def
  run_tool_def executeToolCallWithTimeout_def executeToolCall_def formatToolResult_def
  format_item_def quoted_def max_iterations_message_def MAX_ITERATIONS_def
  TOOL_EXECUTION_TIMEOUT_def digit_def collected_def wants_tools_def is_error_def
  is_tool_event_def is_tool_call_event_def text_of_def content_events_def Let_def split_def
  loop.simps show_nat.simps

lemma chatWithTools_parts:
  "trace (chatWithTools env messages tools s) =
     fst (loop env tools (free s) True 0 (snd (spread messages s))) @
     (if MAX_ITERATIONS \<le> fst (snd (loop env tools (free s) True 0 (snd (spread messages s))))
      then [Yield (Error max_iterations_message)] else []) @
     [Yield Done]"
  "history (chatWithTools env messages tools s) = free s"
  "final (chatWithTools env messages tools s) =
     snd (snd (loop env tools (free s) True 0 (snd (spread messages s))))"
  by (simp_all add: chatWithTools_def spread_def split_def Let_def)

lemma spread_fields:
  "arrays (snd (spread messages s)) (free s) = arrays s messages"
  "a \<noteq> free s \<Longrightarrow> arrays (snd (spread messages s)) a = arrays s a"
  "world (snd (spread messages s)) = world s"
  "free (snd (spread messages s)) = Suc (free s)"
  by (simp_all add: spread_def)

lemma streams_trace:
  "streams (trace (chatWithTools env messages tools s)) =
     streams (fst (loop env tools (free s) True 0 (snd (spread messages s))))"
  by (simp add: chatWithTools_parts(1) streams_append)

text \<open>
  C1. In a run where every model turn ends without a stream error and is classified
  \<open>tool_calls\<close> with a non-empty list of completed calls, exactly 10 model streams are
  opened, and the trace ends with the result event of the last dispatch, the error event
  of the iteration limit, and the done event; no other error event is emitted.
\<close>

theorem ten_tool_turns_abort:
  assumes "\<forall>stream \<in> set (streams (trace (chatWithTools env messages tools s))).
             s_error stream = None \<and> wants_tools stream"
  shows "length (streams (trace (chatWithTools env messages tools s))) = 10 \<and>
         (\<exists>pre n c b.
            trace (chatWithTools env messages tools s) =
              pre @ [Yield (Tool_execution_result n c b),
                     Yield (Error max_iterations_message), Yield Done] \<and>
            filter is_error (events pre) = [])"
proof -
  let ?l = "loop env tools (free s) True 0 (snd (spread messages s))"
  have hyp: "\<forall>stream \<in> set (streams (fst ?l)). s_error stream = None \<and> wants_tools stream"
    using assms by (simp only: streams_trace)
  have "0 < MAX_ITERATIONS" by (simp add: MAX_ITERATIONS_def)
  from loop_only_tool_turns [OF hyp this]
  obtain pre n c b where l:
    "fst (snd ?l) = MAX_ITERATIONS" "length (streams (fst ?l)) = MAX_ITERATIONS - 0"
    "filter is_error (events (fst ?l)) = []"
    "fst ?l = pre @ [Yield (Tool_execution_result n c b)]"
    by blast
  have "length (streams (trace (chatWithTools env messages tools s))) = 10"
    using l(2) by (simp add: streams_trace MAX_ITERATIONS_def)
  moreover have "trace (chatWithTools env messages tools s) =
      pre @ [Yield (Tool_execution_result n c b), Yield (Error max_iterations_message), Yield Done]"
    by (simp add: chatWithTools_parts(1) l(1) l(4))
  moreover have "filter is_error (events pre) = []"
    using l(3) by (simp add: l(4) events_append)
  ultimately show ?thesis by blast
qed

theorem ten_tool_turns_abort_witness:
  "streams (trace (chatWithTools (always steps_stream) 0 catalog start)) =
     replicate 10 steps_stream \<and>
   s_error steps_stream = None \<and> wants_tools steps_stream \<and>
   length (streams (trace (chatWithTools (always steps_stream) 0 catalog start))) = 10 \<and>
   (\<exists>pre n c b.
      trace (chatWithTools (always steps_stream) 0 catalog start) =
        pre @ [Yield (Tool_execution_result n c b),
               Yield (Error max_iterations_message), Yield Done] \<and>
      filter is_error (events pre) = [])"
proof -
  have run: "streams (trace (chatWithTools (always steps_stream) 0 catalog start)) =
     replicate 10 steps_stream"
    by (simp add: example_defs run_defs accumulator_defs eval_nat_numeral)
  have ok: "s_error steps_stream = None \<and> wants_tools steps_stream"
    by (simp add: example_defs run_defs accumulator_defs)
  have "\<forall>stream \<in> set (streams (trace (chatWithTools (always steps_stream) 0 catalog start))).
          s_error stream = None \<and> wants_tools stream"
    using ok by (simp only: run) simp
  from ten_tool_turns_abort [OF this] run ok show ?thesis
    by blast
qed

lemma pushes_trace:
  "pushes (trace (chatWithTools env messages tools s)) =
     pushes (fst (loop env tools (free s) True 0 (snd (spread messages s))))"
  by (simp add: chatWithTools_parts(1) pushes_append)

text \<open>
  C10. The caller's array is an array that exists when the run starts. At the end of any
  run it holds what it held; the conversation history is another array, which holds the
  caller's messages followed by every message pushed during the run; no other array
  changed.
\<close>

theorem caller_array_untouched:
  assumes "messages < free s"
  shows "arrays (final (chatWithTools env messages tools s)) messages = arrays s messages \<and>
         history (chatWithTools env messages tools s) \<noteq> messages \<and>
         arrays (final (chatWithTools env messages tools s))
                (history (chatWithTools env messages tools s)) =
           arrays s messages @ pushes (trace (chatWithTools env messages tools s)) \<and>
         (\<forall>a. a \<noteq> history (chatWithTools env messages tools s) \<longrightarrow>
              arrays (final (chatWithTools env messages tools s)) a = arrays s a)"
proof -
  let ?s0 = "snd (spread messages s)"
  let ?l = "loop env tools (free s) True 0 ?s0"
  have g: "arrays (snd (snd ?l)) = (arrays ?s0)(free s := arrays ?s0 (free s) @ pushes (fst ?l))"
    using loop_grows [of "free s" env tools True 0 ?s0] by (simp add: grows_def)
  have ne: "messages \<noteq> free s"
    using assms by simp
  have "arrays (final (chatWithTools env messages tools s)) messages = arrays s messages"
    using ne by (simp add: chatWithTools_parts(3) g spread_fields)
  moreover have "history (chatWithTools env messages tools s) \<noteq> messages"
    using ne by (simp add: chatWithTools_parts(2))
  moreover have "arrays (final (chatWithTools env messages tools s))
                (history (chatWithTools env messages tools s)) =
           arrays s messages @ pushes (trace (chatWithTools env messages tools s))"
    by (simp add: chatWithTools_parts(2,3) g pushes_trace spread_fields)
  moreover have "\<forall>a. a \<noteq> history (chatWithTools env messages tools s) \<longrightarrow>
              arrays (final (chatWithTools env messages tools s)) a = arrays s a"
    by (simp add: chatWithTools_parts(2,3) g spread_fields)
  ultimately show ?thesis by blast
qed

theorem caller_array_untouched_witness:
  "0 < free start \<and>
   arrays (final (chatWithTools (then_answer 1 steps_stream)
                    0 catalog start)) 0 = [user_message] \<and>
   length (arrays (final (chatWithTools (then_answer 1 steps_stream)
                    0 catalog start))
             (history (chatWithTools (then_answer 1 steps_stream)
                    0 catalog start))) = 4"
proof -
  have a: "0 < free start" by (simp add: start_def)
  have p: "length (pushes (trace (chatWithTools
              (then_answer 1 steps_stream) 0 catalog start))) = 3"
    by (simp add: example_defs run_defs accumulator_defs)
  have m: "arrays start 0 = [user_message]" by (simp add: start_def)
  from caller_array_untouched [OF a,
      of "then_answer 1 steps_stream" catalog]
  show ?thesis
    using a p m by simp
qed

text \<open>
  C8, as the code has it. When the first stream ends without an error and without a
  tool-call event, the run appends exactly one message, the assistant message, to the
  transcript; it opens one stream, dispatches no tool, yields the content events and then
  done, and no tool or error event.
\<close>

theorem first_turn_normal:
  assumes "chatStream env (world s) (arrays s messages) tools = (stream, w)"
    and "s_error stream = None"
    and "acc_finishReason (collected stream) = ''stop''"
  shows "(\<exists>a. arrays (final (chatWithTools env messages tools s))
                    (history (chatWithTools env messages tools s)) = arrays s messages @ [a] \<and>
              msg_role a = Assistant \<and> msg_tool_calls a = None \<and>
              msg_content a = acc_contentBuffer (collected stream)) \<and>
         streams (trace (chatWithTools env messages tools s)) = [stream] \<and>
         dispatches (trace (chatWithTools env messages tools s)) = [] \<and>
         events (trace (chatWithTools env messages tools s)) = content_events stream @ [Done] \<and>
         filter is_tool_event (events (trace (chatWithTools env messages tools s))) = [] \<and>
         filter is_error (events (trace (chatWithTools env messages tools s))) = []"
proof -
  let ?s0 = "snd (spread messages s)"
  let ?a = "assistantMessage (response (collected stream) (now env w))"
  have c: "chatStream env (world ?s0) (arrays ?s0 (free s)) tools = (stream, w)"
    using assms(1) by (simp add: spread_fields)
  have nw: "\<not> wants_tools stream"
    using assms(3) by (rule stop_not_wants_tools)
  have b: "iteration_body env tools (free s) ?s0 =
      (turn_prefix (arrays s messages) stream @ [Push ?a], Next False,
       push (free s) ?a (?s0\<lparr>world := w\<rparr>))"
    by (simp add: body_final [OF c assms(2) nw] Let_def spread_fields)
  have l: "loop env tools (free s) True 0 ?s0 =
      (turn_prefix (arrays s messages) stream @ [Push ?a], Suc 0,
       push (free s) ?a (?s0\<lparr>world := w\<rparr>))"
    by (simp add: loop_step b loop_stop MAX_ITERATIONS_def)
  have t: "trace (chatWithTools env messages tools s) =
      turn_prefix (arrays s messages) stream @ [Push ?a, Yield Done]"
    by (simp add: chatWithTools_parts(1) l MAX_ITERATIONS_def)
  have "arrays (final (chatWithTools env messages tools s))
                    (history (chatWithTools env messages tools s)) = arrays s messages @ [?a]"
    by (simp add: chatWithTools_parts(2,3) l push_def spread_fields)
  moreover have "msg_role ?a = Assistant \<and> msg_tool_calls ?a = None \<and>
              msg_content ?a = acc_contentBuffer (collected stream)"
    using stop_no_calls [OF assms(3)] by (simp add: response_fields)
  moreover have "streams (trace (chatWithTools env messages tools s)) = [stream]"
    by (simp add: t streams_append readers_turn_prefix)
  moreover have "dispatches (trace (chatWithTools env messages tools s)) = []"
    by (simp add: t dispatches_append readers_turn_prefix)
  moreover have e: "events (trace (chatWithTools env messages tools s)) = content_events stream @ [Done]"
    by (simp add: t events_append readers_turn_prefix)
  moreover have "filter is_tool_event (events (trace (chatWithTools env messages tools s))) = []"
    by (simp add: e content_events_plain is_tool_event_def)
  moreover have "filter is_error (events (trace (chatWithTools env messages tools s))) = []"
    by (simp add: e content_events_plain is_error_def)
  ultimately show ?thesis by blast
qed

theorem first_turn_normal_witness:
  "chatStream (always answer_stream) (world start) (arrays start 0) catalog =
     (answer_stream, 1) \<and>
   s_error answer_stream = None \<and>
   acc_finishReason (collected answer_stream) = ''stop'' \<and>
   events (trace (chatWithTools (always answer_stream) 0 catalog start)) =
     [Content ''Hello'', Done] \<and>
   dispatches (trace (chatWithTools (always answer_stream) 0 catalog start)) = []"
proof -
  have a: "chatStream (always answer_stream) (world start) (arrays start 0) catalog =
     (answer_stream, 1)"
    by (simp add: always_def scripted_def start_def)
  have b: "s_error answer_stream = None"
    by (simp add: answer_stream_def)
  have c: "acc_finishReason (collected answer_stream) = ''stop''"
    by (simp add: example_defs run_defs accumulator_defs)
  have d: "content_events answer_stream = [Content ''Hello'']"
    by (simp add: example_defs run_defs accumulator_defs)
  from first_turn_normal [OF a b c] a b c d show ?thesis
    by simp
qed

text \<open>
  C8 as stated fails: the run below has a first turn without tool-call event, and its
  history is the caller's one message followed by one new message, not two.
\<close>

theorem normal_first_turn_appends_one:
  "acc_finishReason (collected answer_stream) = ''stop'' \<and>
   arrays start 0 = [user_message] \<and>
   arrays (final (chatWithTools (always answer_stream) 0 catalog start))
          (history (chatWithTools (always answer_stream) 0 catalog start)) =
     [user_message,
      \<lparr>msg_role = Assistant, msg_content = ''Hello'', msg_tool_calls = None,
       msg_tool_call_id = None, msg_timestamp = 1\<rparr>]"
  by (simp add: example_defs run_defs accumulator_defs)


lemma loop_tool_turn:
  assumes "chatStream env (world s) (arrays s h) tools = (stream, w)" "s_error stream = None"
    "wants_tools stream" "i < MAX_ITERATIONS"
  shows "\<exists>ms flags s'.
           length ms = length (finalize (acc_toolCallsBuffer (collected stream))) \<and>
           length flags = length (finalize (acc_toolCallsBuffer (collected stream))) \<and>
           loop env tools h True i s =
             (turn_prefix (arrays s h) stream @
                [Push (assistantMessage (response (collected stream) (now env w)))] @
                blocks (finalize (acc_toolCallsBuffer (collected stream))) ms flags @
                fst (loop env tools h True (Suc i) s'),
              snd (loop env tools h True (Suc i) s')) \<and>
           (Suc i < MAX_ITERATIONS \<longrightarrow>
              (\<exists>rest. fst (loop env tools h True (Suc i) s') =
                 ChatStream (arrays s' h) (fst (chatStream env (world s') (arrays s' h) tools)) # rest))"
proof -
  from body_tools_blocks [OF assms(1-3)] obtain ms flags s' where
    len: "length ms = length (finalize (acc_toolCallsBuffer (collected stream)))"
      "length flags = length (finalize (acc_toolCallsBuffer (collected stream)))"
    and b: "iteration_body env tools h s =
             (turn_prefix (arrays s h) stream @
                [Push (assistantMessage (response (collected stream) (now env w)))] @
                blocks (finalize (acc_toolCallsBuffer (collected stream))) ms flags,
              Next True, s')"
    by blast
  have u: "loop env tools h True i s =
             (turn_prefix (arrays s h) stream @
                [Push (assistantMessage (response (collected stream) (now env w)))] @
                blocks (finalize (acc_toolCallsBuffer (collected stream))) ms flags @
                fst (loop env tools h True (Suc i) s'),
              snd (loop env tools h True (Suc i) s'))"
    using assms(4) by (simp add: loop_step b split_def Let_def)
  have n: "Suc i < MAX_ITERATIONS \<longrightarrow>
              (\<exists>rest. fst (loop env tools h True (Suc i) s') =
                 ChatStream (arrays s' h) (fst (chatStream env (world s') (arrays s' h) tools)) # rest)"
    using loop_head [OF TrueI, of "Suc i" env tools h s'] by blast
  show ?thesis
    using len u n by blast
qed

lemma loop_final_turn:
  assumes "chatStream env (world s) (arrays s h) tools = (stream, w)" "s_error stream = None"
    "\<not> wants_tools stream" "i < MAX_ITERATIONS"
  shows "loop env tools h True i s =
           (turn_prefix (arrays s h) stream @
              [Push (assistantMessage (response (collected stream) (now env w)))],
            Suc i,
            push h (assistantMessage (response (collected stream) (now env w))) (s\<lparr>world := w\<rparr>))"
  using assms(4) by (simp add: loop_step body_final [OF assms(1-3)] Let_def loop_stop)

text \<open>
  C3, as the code has it. The finish reason of a turn is \<open>tool_calls\<close> exactly when
  a tool-call event was observed on the stream. When the stream ends without an error, the
  loop appends the assistant message; it then dispatches the finalized calls and goes on
  with \<open>continueLoop\<close> true (opening the next stream when fewer than 10 passes have
  run) only if the finish reason is \<open>tool_calls\<close> and the finalized list is not
  empty; in every other case, also after a tool-call event whose finalized list is empty,
  the pass is the last one and the loop returns with nothing further done.
\<close>

theorem turn_outcome:
  "acc_finishReason (collected stream) =
     (if list_ex is_tool_call_event (s_chunks stream) then ''tool_calls'' else ''stop'') \<and>
   (chatStream env (world s) (arrays s h) tools = (stream, w) \<and> s_error stream = None \<and>
    i < MAX_ITERATIONS \<longrightarrow>
      (if acc_finishReason (collected stream) = ''tool_calls'' \<and>
          length (finalize (acc_toolCallsBuffer (collected stream))) > 0
       then \<exists>ms flags s'.
              length ms = length (finalize (acc_toolCallsBuffer (collected stream))) \<and>
              length flags = length (finalize (acc_toolCallsBuffer (collected stream))) \<and>
              loop env tools h True i s =
                (turn_prefix (arrays s h) stream @
                   [Push (assistantMessage (response (collected stream) (now env w)))] @
                   blocks (finalize (acc_toolCallsBuffer (collected stream))) ms flags @
                   fst (loop env tools h True (Suc i) s'),
                 snd (loop env tools h True (Suc i) s')) \<and>
              (Suc i < MAX_ITERATIONS \<longrightarrow>
                 (\<exists>rest. fst (loop env tools h True (Suc i) s') =
                    ChatStream (arrays s' h)
                      (fst (chatStream env (world s') (arrays s' h) tools)) # rest))
       else loop env tools h True i s =
              (turn_prefix (arrays s h) stream @
                 [Push (assistantMessage (response (collected stream) (now env w)))],
               Suc i,
               push h (assistantMessage (response (collected stream) (now env w)))
                 (s\<lparr>world := w\<rparr>))))"
proof (intro conjI impI)
  show "acc_finishReason (collected stream) =
     (if list_ex is_tool_call_event (s_chunks stream) then ''tool_calls'' else ''stop'')"
    by (rule reason_collected)
next
  assume "chatStream env (world s) (arrays s h) tools = (stream, w) \<and> s_error stream = None \<and>
    i < MAX_ITERATIONS"
  then have h: "chatStream env (world s) (arrays s h) tools = (stream, w)"
    "s_error stream = None" "i < MAX_ITERATIONS"
    by simp_all
  show "if acc_finishReason (collected stream) = ''tool_calls'' \<and>
          length (finalize (acc_toolCallsBuffer (collected stream))) > 0
       then \<exists>ms flags s'.
              length ms = length (finalize (acc_toolCallsBuffer (collected stream))) \<and>
              length flags = length (finalize (acc_toolCallsBuffer (collected stream))) \<and>
              loop env tools h True i s =
                (turn_prefix (arrays s h) stream @
                   [Push (assistantMessage (response (collected stream) (now env w)))] @
                   blocks (finalize (acc_toolCallsBuffer (collected stream))) ms flags @
                   fst (loop env tools h True (Suc i) s'),
                 snd (loop env tools h True (Suc i) s')) \<and>
              (Suc i < MAX_ITERATIONS \<longrightarrow>
                 (\<exists>rest. fst (loop env tools h True (Suc i) s') =
                    ChatStream (arrays s' h)
                      (fst (chatStream env (world s') (arrays s' h) tools)) # rest))
       else loop env tools h True i s =
              (turn_prefix (arrays s h) stream @
                 [Push (assistantMessage (response (collected stream) (now env w)))],
               Suc i,
               push h (assistantMessage (response (collected stream) (now env w)))
                 (s\<lparr>world := w\<rparr>))"
  proof (cases "wants_tools stream")
    case True
    then have c: "acc_finishReason (collected stream) = ''tool_calls'' \<and>
          length (finalize (acc_toolCallsBuffer (collected stream))) > 0"
      by (simp add: wants_tools_def)
    show ?thesis
      unfolding if_P [OF c] by (rule loop_tool_turn [OF h(1,2) True h(3)])
  next
    case False
    then have c: "\<not> (acc_finishReason (collected stream) = ''tool_calls'' \<and>
          length (finalize (acc_toolCallsBuffer (collected stream))) > 0)"
      by (simp add: wants_tools_def)
    show ?thesis
      unfolding if_not_P [OF c] by (rule loop_final_turn [OF h(1,2) False h(3)])
  qed
qed

theorem turn_outcome_witness:
  "chatStream (always no_id_stream) (world start) (arrays start 0) catalog = (no_id_stream, 1) \<and>
   s_error no_id_stream = None \<and> 0 < MAX_ITERATIONS \<and>
   acc_finishReason (collected no_id_stream) = ''tool_calls'' \<and>
   finalize (acc_toolCallsBuffer (collected no_id_stream)) = [] \<and>
   fst (loop (always no_id_stream) catalog 0 True 0 start) =
     turn_prefix [user_message] no_id_stream @
       [Push (assistantMessage (response (collected no_id_stream) 1))] \<and>
   fst (snd (loop (always no_id_stream) catalog 0 True 0 start)) = 1"
proof -
  have a: "chatStream (always no_id_stream) (world start) (arrays start 0) catalog =
      (no_id_stream, 1)"
    by (simp add: always_def scripted_def start_def)
  have b: "s_error no_id_stream = None" "0 < MAX_ITERATIONS"
    by (simp_all add: example_defs MAX_ITERATIONS_def)
  have c: "acc_finishReason (collected no_id_stream) = ''tool_calls''"
    "finalize (acc_toolCallsBuffer (collected no_id_stream)) = []"
    by (simp_all add: example_defs run_defs accumulator_defs)
  have pre: "chatStream (always no_id_stream) (world start) (arrays start 0) catalog =
      (no_id_stream, 1) \<and> s_error no_id_stream = None \<and> 0 < MAX_ITERATIONS"
    using a b by simp
  have n: "now (always no_id_stream) (Suc 0) = 1" "arrays start 0 = [user_message]"
    by (simp_all add: always_def scripted_def start_def)
  from turn_outcome [where env = "always no_id_stream" and s = start and h = 0
      and tools = catalog and stream = no_id_stream and w = 1 and i = 0,
      THEN conjunct2, THEN mp, OF pre]
  have "loop (always no_id_stream) catalog 0 True 0 start =
              (turn_prefix [user_message] no_id_stream @
                 [Push (assistantMessage (response (collected no_id_stream) 1))],
               Suc 0,
               push 0 (assistantMessage (response (collected no_id_stream) 1))
                 (start\<lparr>world := 1\<rparr>))"
    by (simp add: c n)
  then show ?thesis
    using a b c by simp
qed

text \<open>
  C3 as stated fails: the stream below carries a tool-call event (a fragment with a name
  and no id), its finish reason is \<open>tool_calls\<close>, and the run is the one model call,
  the push of the assistant message and done: no dispatch phase, no second turn.
\<close>

theorem tool_call_event_without_dispatch:
  "list_ex is_tool_call_event (s_chunks no_id_stream) \<and>
   acc_finishReason (collected no_id_stream) = ''tool_calls'' \<and>
   trace (chatWithTools (always no_id_stream) 0 catalog start) =
     [ChatStream [user_message] no_id_stream,
      Push \<lparr>msg_role = Assistant, msg_content = [], msg_tool_calls = None,
            msg_tool_call_id = None, msg_timestamp = 1\<rparr>,
      Yield Done]"
  by (simp add: example_defs run_defs accumulator_defs)

lemma timeout_message: "show_nat TOOL_EXECUTION_TIMEOUT = ''30000''"
  by (simp add: TOOL_EXECUTION_TIMEOUT_def digit_def show_nat.simps)

lemma dispatch_outcomes:
  "(find (\<lambda>t. tool_name t = fn_name (tc_function toolCall)) tools = None \<longrightarrow>
      executeToolCallWithTimeout env toolCall tools w0 =
        (Inl (''Tool '' @ quoted (fn_name (tc_function toolCall)) @ '' not found''), w0)) \<and>
   (find (\<lambda>t. tool_name t = fn_name (tc_function toolCall)) tools = Some t \<and>
    JSON_parse env (fn_arguments (tc_function toolCall)) = Inl reason \<longrightarrow>
      executeToolCallWithTimeout env toolCall tools w0 =
        (Inl (''Invalid tool arguments: '' @ reason), w0)) \<and>
   (find (\<lambda>t. tool_name t = fn_name (tc_function toolCall)) tools = Some t \<and>
    JSON_parse env (fn_arguments (tc_function toolCall)) = Inr args \<and>
    executeTool env w0 (tool_serverId t) (fn_name (tc_function toolCall)) args = (Pending, w1) \<longrightarrow>
      executeToolCallWithTimeout env toolCall tools w0 =
        (Inl ''Tool execution timeout after 30000ms'', w1)) \<and>
   (find (\<lambda>t. tool_name t = fn_name (tc_function toolCall)) tools = Some t \<and>
    JSON_parse env (fn_arguments (tc_function toolCall)) = Inr args \<and>
    executeTool env w0 (tool_serverId t) (fn_name (tc_function toolCall)) args =
      (Rejected reason, w1) \<longrightarrow>
      executeToolCallWithTimeout env toolCall tools w0 = (Inl reason, w1)) \<and>
   (find (\<lambda>t. tool_name t = fn_name (tc_function toolCall)) tools = Some t \<and>
    JSON_parse env (fn_arguments (tc_function toolCall)) = Inr args \<and>
    executeTool env w0 (tool_serverId t) (fn_name (tc_function toolCall)) args =
      (Resolved result, w1) \<longrightarrow>
      executeToolCallWithTimeout env toolCall tools w0 = (Inr result, w1))"
  by (simp add: executeToolCallWithTimeout_def executeToolCall_def Let_def timeout_message)

lemma next_turn_after_dispatch:
  assumes "chatStream env (world s) (arrays s h) tools = (stream, w)" "s_error stream = None"
    "wants_tools stream"
  shows "(Suc i < MAX_ITERATIONS \<longrightarrow> 2 \<le> length (streams (fst (loop env tools h True i s)))) \<and>
         (Suc i = MAX_ITERATIONS \<longrightarrow>
            streams (fst (loop env tools h True i s)) = [stream] \<and>
            fst (snd (loop env tools h True i s)) = MAX_ITERATIONS)"
proof (intro conjI impI)
  assume lt: "Suc i < MAX_ITERATIONS"
  then have "i < MAX_ITERATIONS" by simp
  from loop_tool_turn [OF assms this] lt obtain ms flags s' rest where
    len: "length ms = length (finalize (acc_toolCallsBuffer (collected stream)))"
      "length flags = length (finalize (acc_toolCallsBuffer (collected stream)))"
    and u: "loop env tools h True i s =
             (turn_prefix (arrays s h) stream @
                [Push (assistantMessage (response (collected stream) (now env w)))] @
                blocks (finalize (acc_toolCallsBuffer (collected stream))) ms flags @
                fst (loop env tools h True (Suc i) s'),
              snd (loop env tools h True (Suc i) s'))"
    and n: "fst (loop env tools h True (Suc i) s') =
                 ChatStream (arrays s' h) (fst (chatStream env (world s') (arrays s' h) tools)) # rest"
    by blast
  show "2 \<le> length (streams (fst (loop env tools h True i s)))"
    by (simp add: u n streams_append readers_turn_prefix readers_blocks [OF len])
next
  assume eq: "Suc i = MAX_ITERATIONS"
  then have "i < MAX_ITERATIONS" by simp
  from loop_tool_turn [OF assms this] obtain ms flags s' where
    len: "length ms = length (finalize (acc_toolCallsBuffer (collected stream)))"
      "length flags = length (finalize (acc_toolCallsBuffer (collected stream)))"
    and u: "loop env tools h True i s =
             (turn_prefix (arrays s h) stream @
                [Push (assistantMessage (response (collected stream) (now env w)))] @
                blocks (finalize (acc_toolCallsBuffer (collected stream))) ms flags @
                fst (loop env tools h True (Suc i) s'),
              snd (loop env tools h True (Suc i) s'))"
    by blast
  have stop: "loop env tools h True (Suc i) s' = ([], Suc i, s')"
    using eq by (simp add: loop_stop)
  show "streams (fst (loop env tools h True i s)) = [stream]"
    by (simp add: u stop streams_append readers_turn_prefix readers_blocks [OF len])
  have "fst (snd (loop env tools h True i s)) = Suc i"
    by (simp add: u stop)
  then show "fst (snd (loop env tools h True i s)) = MAX_ITERATIONS"
    by (simp only: eq)
qed

text \<open>
  C6, as the code has it. When the dispatch of a call throws, with any message, the loop
  yields the start event, pushes exactly one tool message whose content is
  \<open>Error executing\<close>, the tool name, a colon and the message, and whose
  \<open>tool_call_id\<close> is the call's id, and yields the result event with \<open>isError\<close>
  true. The dispatch throws when the name is not in the catalog, when the argument text
  does not parse, when the provider has not settled at the timeout, and when the provider
  rejects. A result the provider returns, also one whose \<open>isError\<close> flag is set, is
  not thrown: its flattened content is the tool message, and the event carries the flag.
  Whatever the dispatches of a turn did, the loop goes on: it opens the next stream when
  the turn was not the 10th, and after the 10th turn it ends with the iteration count at
  the limit.
\<close>

theorem tool_failure_recovered:
  "(executeToolCallWithTimeout env toolCall tools (world s) = (Inl message, w) \<longrightarrow>
      run_tool env tools h toolCall s =
        (block toolCall
           \<lparr>msg_role = Tool,
            msg_content = ''Error executing '' @ fn_name (tc_function toolCall) @ '': '' @ message,
            msg_tool_calls = None,
            msg_tool_call_id = Some (tc_id toolCall),
            msg_timestamp = now env w\<rparr> True,
         push h
           \<lparr>msg_role = Tool,
            msg_content = ''Error executing '' @ fn_name (tc_function toolCall) @ '': '' @ message,
            msg_tool_calls = None,
            msg_tool_call_id = Some (tc_id toolCall),
            msg_timestamp = now env w\<rparr> (s\<lparr>world := w\<rparr>))) \<and>
   (executeToolCallWithTimeout env toolCall tools (world s) = (Inr result, w) \<longrightarrow>
      run_tool env tools h toolCall s =
        (block toolCall
           \<lparr>msg_role = Tool,
            msg_content = formatToolResult env result,
            msg_tool_calls = None,
            msg_tool_call_id = Some (tc_id toolCall),
            msg_timestamp = now env w\<rparr> (res_isError result = Some True),
         push h
           \<lparr>msg_role = Tool,
            msg_content = formatToolResult env result,
            msg_tool_calls = None,
            msg_tool_call_id = Some (tc_id toolCall),
            msg_timestamp = now env w\<rparr> (s\<lparr>world := w\<rparr>))) \<and>
   (find (\<lambda>t. tool_name t = fn_name (tc_function toolCall)) tools = None \<longrightarrow>
      executeToolCallWithTimeout env toolCall tools w0 =
        (Inl (''Tool '' @ quoted (fn_name (tc_function toolCall)) @ '' not found''), w0)) \<and>
   (find (\<lambda>t. tool_name t = fn_name (tc_function toolCall)) tools = Some t \<and>
    JSON_parse env (fn_arguments (tc_function toolCall)) = Inl reason \<longrightarrow>
      executeToolCallWithTimeout env toolCall tools w0 =
        (Inl (''Invalid tool arguments: '' @ reason), w0)) \<and>
   (find (\<lambda>t. tool_name t = fn_name (tc_function toolCall)) tools = Some t \<and>
    JSON_parse env (fn_arguments (tc_function toolCall)) = Inr args \<and>
    executeTool env w0 (tool_serverId t) (fn_name (tc_function toolCall)) args = (Pending, w1) \<longrightarrow>
      executeToolCallWithTimeout env toolCall tools w0 =
        (Inl ''Tool execution timeout after 30000ms'', w1)) \<and>
   (find (\<lambda>t. tool_name t = fn_name (tc_function toolCall)) tools = Some t \<and>
    JSON_parse env (fn_arguments (tc_function toolCall)) = Inr args \<and>
    executeTool env w0 (tool_serverId t) (fn_name (tc_function toolCall)) args =
      (Rejected reason, w1) \<longrightarrow>
      executeToolCallWithTimeout env toolCall tools w0 = (Inl reason, w1)) \<and>
   (find (\<lambda>t. tool_name t = fn_name (tc_function toolCall)) tools = Some t \<and>
    JSON_parse env (fn_arguments (tc_function toolCall)) = Inr args \<and>
    executeTool env w0 (tool_serverId t) (fn_name (tc_function toolCall)) args =
      (Resolved result, w1) \<longrightarrow>
      executeToolCallWithTimeout env toolCall tools w0 = (Inr result, w1)) \<and>
   (chatStream env (world state) (arrays state h) tools = (stream, w') \<and>
    s_error stream = None \<and> wants_tools stream \<longrightarrow>
      (Suc i < MAX_ITERATIONS \<longrightarrow>
         2 \<le> length (streams (fst (loop env tools h True i state)))) \<and>
      (Suc i = MAX_ITERATIONS \<longrightarrow>
         streams (fst (loop env tools h True i state)) = [stream] \<and>
         fst (snd (loop env tools h True i state)) = MAX_ITERATIONS))"
proof -
  have a: "executeToolCallWithTimeout env toolCall tools (world s) = (Inl message, w) \<longrightarrow>
      run_tool env tools h toolCall s =
        (block toolCall
           \<lparr>msg_role = Tool,
            msg_content = ''Error executing '' @ fn_name (tc_function toolCall) @ '': '' @ message,
            msg_tool_calls = None,
            msg_tool_call_id = Some (tc_id toolCall),
            msg_timestamp = now env w\<rparr> True,
         push h
           \<lparr>msg_role = Tool,
            msg_content = ''Error executing '' @ fn_name (tc_function toolCall) @ '': '' @ message,
            msg_tool_calls = None,
            msg_tool_call_id = Some (tc_id toolCall),
            msg_timestamp = now env w\<rparr> (s\<lparr>world := w\<rparr>))"
    by (rule impI) (rule run_tool_thrown)
  have b: "executeToolCallWithTimeout env toolCall tools (world s) = (Inr result, w) \<longrightarrow>
      run_tool env tools h toolCall s =
        (block toolCall
           \<lparr>msg_role = Tool,
            msg_content = formatToolResult env result,
            msg_tool_calls = None,
            msg_tool_call_id = Some (tc_id toolCall),
            msg_timestamp = now env w\<rparr> (res_isError result = Some True),
         push h
           \<lparr>msg_role = Tool,
            msg_content = formatToolResult env result,
            msg_tool_calls = None,
            msg_tool_call_id = Some (tc_id toolCall),
            msg_timestamp = now env w\<rparr> (s\<lparr>world := w\<rparr>))"
    by (rule impI) (rule run_tool_returned)
  have d: "chatStream env (world state) (arrays state h) tools = (stream, w') \<and>
    s_error stream = None \<and> wants_tools stream \<longrightarrow>
      (Suc i < MAX_ITERATIONS \<longrightarrow>
         2 \<le> length (streams (fst (loop env tools h True i state)))) \<and>
      (Suc i = MAX_ITERATIONS \<longrightarrow>
         streams (fst (loop env tools h True i state)) = [stream] \<and>
         fst (snd (loop env tools h True i state)) = MAX_ITERATIONS)"
    by (rule impI, elim conjE, rule next_turn_after_dispatch)
  show ?thesis
    by (intro conjI a b d dispatch_outcomes [THEN conjunct1]
        dispatch_outcomes [THEN conjunct2, THEN conjunct1]
        dispatch_outcomes [THEN conjunct2, THEN conjunct2, THEN conjunct1]
        dispatch_outcomes [THEN conjunct2, THEN conjunct2, THEN conjunct2, THEN conjunct1]
        dispatch_outcomes [THEN conjunct2, THEN conjunct2, THEN conjunct2, THEN conjunct2])
qed

theorem tool_failure_recovered_witness:
  "executeToolCallWithTimeout (always invalid_arguments_stream) invalid_call catalog (world start) =
     (Inl ''Invalid tool arguments: Unexpected token'', 0) \<and>
   fst (run_tool (always invalid_arguments_stream) catalog 0 invalid_call start) =
     block invalid_call
       \<lparr>msg_role = Tool,
        msg_content = ''Error executing get_steps: Invalid tool arguments: Unexpected token'',
        msg_tool_calls = None, msg_tool_call_id = Some ''call_1'', msg_timestamp = 0\<rparr> True \<and>
   executeToolCallWithTimeout (always invalid_arguments_stream) missing_call catalog 0 =
     (Inl (''Tool '' @ quoted ''missing_tool'' @ '' not found''), 0) \<and>
   executeToolCallWithTimeout (always invalid_arguments_stream) slow_call catalog 0 =
     (Inl ''Tool execution timeout after 30000ms'', 0) \<and>
   executeToolCallWithTimeout (always invalid_arguments_stream) down_call catalog 0 =
     (Inl ''connection closed'', 0) \<and>
   executeToolCallWithTimeout (always invalid_arguments_stream) sleep_call catalog 0 =
     (Inr error_result, 0) \<and>
   fst (run_tool (always invalid_arguments_stream) catalog 0 sleep_call start) =
     block sleep_call
       \<lparr>msg_role = Tool, msg_content = ''boom'',
        msg_tool_calls = None, msg_tool_call_id = Some ''call_2'', msg_timestamp = 0\<rparr> True \<and>
   chatStream (always invalid_arguments_stream) (world start) (arrays start 0) catalog =
     (invalid_arguments_stream, 1) \<and>
   s_error invalid_arguments_stream = None \<and> wants_tools invalid_arguments_stream \<and>
   Suc 0 < MAX_ITERATIONS \<and>
   2 \<le> length (streams (fst (loop (always invalid_arguments_stream) catalog 0 True 0 start)))"
proof -
  let ?E = "always invalid_arguments_stream"
  note T = tool_failure_recovered [where env = ?E and tools = catalog and h = 0]
  have w: "world start = 0" by (simp add: start_def)
  have n: "now ?E 0 = 0" by (simp add: always_def scripted_def)
  \<comment> \<open>argument text that does not parse\<close>
  have "find (\<lambda>t. tool_name t = fn_name (tc_function invalid_call)) catalog = Some (tool ''get_steps'') \<and>
        JSON_parse ?E (fn_arguments (tc_function invalid_call)) = Inl ''Unexpected token''"
    by (simp add: example_defs)
  from T [where toolCall = invalid_call and ?w0.0 = 0 and t = "tool ''get_steps''"
      and reason = "''Unexpected token''",
      THEN conjunct2, THEN conjunct2, THEN conjunct2, THEN conjunct1, THEN mp, OF this]
  have invalid: "executeToolCallWithTimeout ?E invalid_call catalog (world start) =
     (Inl ''Invalid tool arguments: Unexpected token'', 0)"
    by (simp add: w)
  from T [where toolCall = invalid_call and s = start and w = 0
      and message = "''Invalid tool arguments: Unexpected token''",
      THEN conjunct1, THEN mp, OF invalid]
  have pushed: "fst (run_tool ?E catalog 0 invalid_call start) =
     block invalid_call
       \<lparr>msg_role = Tool,
        msg_content = ''Error executing get_steps: Invalid tool arguments: Unexpected token'',
        msg_tool_calls = None, msg_tool_call_id = Some ''call_1'', msg_timestamp = 0\<rparr> True"
    by (simp add: n invalid_call_def)
  \<comment> \<open>name not in the catalog\<close>
  have "find (\<lambda>t. tool_name t = fn_name (tc_function missing_call)) catalog = None"
    by (simp add: example_defs)
  from T [where toolCall = missing_call and ?w0.0 = 0,
      THEN conjunct2, THEN conjunct2, THEN conjunct1, THEN mp, OF this]
  have missing: "executeToolCallWithTimeout ?E missing_call catalog 0 =
     (Inl (''Tool '' @ quoted ''missing_tool'' @ '' not found''), 0)"
    by (simp add: missing_call_def)
  \<comment> \<open>provider pending at the timeout\<close>
  have "find (\<lambda>t. tool_name t = fn_name (tc_function slow_call)) catalog = Some (tool ''slow_tool'') \<and>
        JSON_parse ?E (fn_arguments (tc_function slow_call)) = Inr (JObj []) \<and>
        executeTool ?E 0 (tool_serverId (tool ''slow_tool'')) (fn_name (tc_function slow_call))
          (JObj []) = (Pending, 0)"
    by (simp add: example_defs)
  from T [where toolCall = slow_call and ?w0.0 = 0 and ?w1.0 = 0 and t = "tool ''slow_tool''"
      and args = "JObj []",
      THEN conjunct2, THEN conjunct2, THEN conjunct2, THEN conjunct2, THEN conjunct1, THEN mp,
      OF this]
  have slow: "executeToolCallWithTimeout ?E slow_call catalog 0 =
     (Inl ''Tool execution timeout after 30000ms'', 0)" .
  \<comment> \<open>provider rejects\<close>
  have "find (\<lambda>t. tool_name t = fn_name (tc_function down_call)) catalog = Some (tool ''down_tool'') \<and>
        JSON_parse ?E (fn_arguments (tc_function down_call)) = Inr (JObj []) \<and>
        executeTool ?E 0 (tool_serverId (tool ''down_tool'')) (fn_name (tc_function down_call))
          (JObj []) = (Rejected ''connection closed'', 0)"
    by (simp add: example_defs)
  from T [where toolCall = down_call and ?w0.0 = 0 and ?w1.0 = 0 and t = "tool ''down_tool''"
      and args = "JObj []" and reason = "''connection closed''",
      THEN conjunct2, THEN conjunct2, THEN conjunct2, THEN conjunct2, THEN conjunct2,
      THEN conjunct1, THEN mp, OF this]
  have down: "executeToolCallWithTimeout ?E down_call catalog 0 = (Inl ''connection closed'', 0)" .
  \<comment> \<open>provider returns a result flagged as an error\<close>
  have "find (\<lambda>t. tool_name t = fn_name (tc_function sleep_call)) catalog = Some (tool ''get_sleep'') \<and>
        JSON_parse ?E (fn_arguments (tc_function sleep_call)) = Inr (JObj []) \<and>
        executeTool ?E 0 (tool_serverId (tool ''get_sleep'')) (fn_name (tc_function sleep_call))
          (JObj []) = (Resolved error_result, 0)"
    by (simp add: example_defs)
  from T [where toolCall = sleep_call and ?w0.0 = 0 and ?w1.0 = 0 and t = "tool ''get_sleep''"
      and args = "JObj []" and result = error_result,
      THEN conjunct2, THEN conjunct2, THEN conjunct2, THEN conjunct2, THEN conjunct2,
      THEN conjunct2, THEN conjunct1, THEN mp, OF this]
  have sleep: "executeToolCallWithTimeout ?E sleep_call catalog 0 = (Inr error_result, 0)" .
  then have "executeToolCallWithTimeout ?E sleep_call catalog (world start) = (Inr error_result, 0)"
    by (simp add: w)
  from T [where toolCall = sleep_call and s = start and w = 0 and result = error_result,
      THEN conjunct2, THEN conjunct1, THEN mp, OF this]
  have returned: "fst (run_tool ?E catalog 0 sleep_call start) =
     block sleep_call
       \<lparr>msg_role = Tool, msg_content = ''boom'',
        msg_tool_calls = None, msg_tool_call_id = Some ''call_2'', msg_timestamp = 0\<rparr> True"
    by (simp add: n sleep_call_def error_result_def formatToolResult_def format_item_def
        truthy_def text_of_def)
  \<comment> \<open>the next turn\<close>
  have c: "chatStream ?E (world start) (arrays start 0) catalog = (invalid_arguments_stream, 1)"
    by (simp add: always_def scripted_def start_def)
  have ok: "s_error invalid_arguments_stream = None" "wants_tools invalid_arguments_stream"
    by (simp_all add: example_defs run_defs accumulator_defs)
  have lt: "Suc 0 < MAX_ITERATIONS" by (simp add: MAX_ITERATIONS_def)
  have "chatStream ?E (world start) (arrays start 0) catalog = (invalid_arguments_stream, 1) \<and>
        s_error invalid_arguments_stream = None \<and> wants_tools invalid_arguments_stream"
    using c ok by simp
  from T [where state = start and stream = invalid_arguments_stream and w' = 1 and i = 0,
      THEN conjunct2, THEN conjunct2, THEN conjunct2, THEN conjunct2, THEN conjunct2,
      THEN conjunct2, THEN conjunct2, THEN mp, OF this, THEN conjunct1, THEN mp, OF lt]
  have next_turn: "2 \<le> length (streams (fst (loop ?E catalog 0 True 0 start)))" .
  show ?thesis
    using invalid pushed missing slow down sleep returned c ok lt next_turn by blast
qed

text \<open>
  C6 as stated fails, in two places. In the run below every turn asks for two tools: the
  first is not in the catalog, the provider answers the second with a result flagged as an
  error. After the failed dispatches of the 10th turn no model turn follows: the run has
  10 streams and ends with the error of the iteration limit. And the tool message for the
  provider's error result is the provider's text \<open>boom\<close>, which names neither the tool
  nor a failure.
\<close>

theorem failure_in_tenth_turn:
  "length (streams (trace (chatWithTools (always failing_tools_stream) 0 catalog start))) = 10 \<and>
   drop 36 (events (trace (chatWithTools (always failing_tools_stream) 0 catalog start))) =
     [Tool_execution_start ''missing_tool'' ''call_1'',
      Tool_execution_result ''missing_tool'' ''call_1'' True,
      Tool_execution_start ''get_sleep'' ''call_2'',
      Tool_execution_result ''get_sleep'' ''call_2'' True,
      Error max_iterations_message, Done] \<and>
   executeTool (always failing_tools_stream) 0 ''garmin'' ''get_sleep'' (JObj []) =
     (Resolved error_result, 0) \<and>
   res_isError error_result = Some True \<and>
   fst (run_tool (always failing_tools_stream) catalog 0 sleep_call start) =
     block sleep_call
       \<lparr>msg_role = Tool, msg_content = ''boom'',
        msg_tool_calls = None, msg_tool_call_id = Some ''call_2'', msg_timestamp = 0\<rparr> True"
proof -
  have a: "length (streams (trace (chatWithTools (always failing_tools_stream) 0 catalog start))) = 10"
    by (simp add: example_defs run_defs accumulator_defs)
  have b: "drop 36 (events (trace (chatWithTools (always failing_tools_stream) 0 catalog start))) =
     [Tool_execution_start ''missing_tool'' ''call_1'',
      Tool_execution_result ''missing_tool'' ''call_1'' True,
      Tool_execution_start ''get_sleep'' ''call_2'',
      Tool_execution_result ''get_sleep'' ''call_2'' True,
      Error max_iterations_message, Done]"
    by (simp add: example_defs run_defs accumulator_defs)
  have c: "executeTool (always failing_tools_stream) 0 ''garmin'' ''get_sleep'' (JObj []) =
     (Resolved error_result, 0) \<and> res_isError error_result = Some True"
    by (simp add: example_defs)
  have d: "fst (run_tool (always failing_tools_stream) catalog 0 sleep_call start) =
     block sleep_call
       \<lparr>msg_role = Tool, msg_content = ''boom'',
        msg_tool_calls = None, msg_tool_call_id = Some ''call_2'', msg_timestamp = 0\<rparr> True"
    by (simp add: example_defs run_defs block_def truthy_def)
  show ?thesis
    using a b c d by blast
qed

text \<open>
  C2 at the input where the code departs from it: the model asks for a tool nine times
  and gives its final answer in the 10th turn. The 10th stream has no tool-call event and
  does not fail, and still the run yields the error of the iteration limit between the
  answer and done.
\<close>

theorem error_after_final_answer_in_tenth_turn:
  "streams (trace (chatWithTools (then_answer 9 steps_stream) 0 catalog start)) =
     replicate 9 steps_stream @ [answer_stream] \<and>
   s_error answer_stream = None \<and>
   acc_finishReason (collected answer_stream) = ''stop'' \<and>
   drop 18 (events (trace (chatWithTools (then_answer 9 steps_stream) 0 catalog start))) =
     [Content ''Hello'', Error max_iterations_message, Done]"
proof -
  have a: "streams (trace (chatWithTools (then_answer 9 steps_stream) 0 catalog start)) =
     replicate 9 steps_stream @ [answer_stream]"
    by (simp add: example_defs run_defs accumulator_defs eval_nat_numeral)
  have b: "s_error answer_stream = None \<and> acc_finishReason (collected answer_stream) = ''stop''"
    by (simp add: example_defs run_defs accumulator_defs)
  have c: "drop 18 (events (trace (chatWithTools (then_answer 9 steps_stream) 0 catalog start))) =
     [Content ''Hello'', Error max_iterations_message, Done]"
    by (simp add: example_defs run_defs accumulator_defs)
  show ?thesis
    using a b c by blast
qed

subsection \<open>One dispatched call, then the answer\<close>

lemma dispatches_trace:
  "dispatches (trace (chatWithTools env messages tools s)) =
     dispatches (fst (loop env tools (free s) True 0 (snd (spread messages s))))"
  by (simp add: chatWithTools_parts(1) dispatches_append)
















end
